theory Spec2Isabelle
  imports Main "HOL-Library.Char_ord" "HOL-Library.List_Lexorder"
begin

section \<open>Data model\<close>

text \<open>
  The dialplan generator of \<^verbatim>\<open>backend/dialplan.py\<close> reads five collections of
  database rows. Each row class is a record with the attributes the generator
  reads. Three classes have an attribute \<^verbatim>\<open>extension\<close>; the record fields carry a
  prefix (\<open>fwd_\<close>, \<open>mb_\<close>, \<open>peer_\<close>) to keep them apart, and so does
  \<^verbatim>\<open>CallForward.ring_time\<close>, which would clash with the parameter of that name.
  The attributes the generator tests for truth before it uses them
  (\<^verbatim>\<open>description\<close>, \<^verbatim>\<open>ring_timeout\<close>, \<^verbatim>\<open>outbound_cid\<close>, \<^verbatim>\<open>pai\<close>) are options,
  \<^verbatim>\<open>None\<close> being the missing value; the attributes it renders or compares as
  they are hold a value. Python's \<^verbatim>\<open>str\<close> is \<^typ>\<open>string\<close>, compared and sorted
  character by character, and Python's \<^verbatim>\<open>int\<close> is \<^typ>\<open>int\<close>.
\<close>

record inbound_route =
  did :: string
  destination_extension :: string
  description :: "string option"
  trunk_id :: int

record call_forward =
  fwd_extension :: string
  forward_type :: string
  destination :: string
  fwd_ring_time :: int

record voicemail_mailbox =
  mb_extension :: string
  ring_timeout :: "int option"

record sip_peer =
  peer_extension :: string
  outbound_cid :: "string option"
  pai :: "string option"

record sip_trunk =
  trunk_ident :: int
  sip_server :: string

datatype py_error = IndexError

subsection \<open>Python dictionaries\<close>

text \<open>
  A \<^verbatim>\<open>dict\<close> iterates in insertion order, and the generator iterates over some of
  its dictionaries, so a dictionary is an association list in insertion order.
  Storing under a key that is present replaces the value where it stands;
  storing under a new key appends.
\<close>

type_synonym ('k, 'v) dict = "('k \<times> 'v) list"

fun dict_set :: "('k, 'v) dict \<Rightarrow> 'k \<Rightarrow> 'v \<Rightarrow> ('k, 'v) dict" where
  "dict_set [] k v = [(k, v)]"
| "dict_set ((k', v') # d) k v =
     (if k' = k then (k', v) # d else (k', v') # dict_set d k v)"

definition dict_get :: "('k, 'v) dict \<Rightarrow> 'k \<Rightarrow> 'v option" where
  "dict_get d k = map_of d k"

definition dict_get_default :: "('k, 'v) dict \<Rightarrow> 'k \<Rightarrow> 'v \<Rightarrow> 'v" where
  "dict_get_default d k dflt = (case map_of d k of None \<Rightarrow> dflt | Some v \<Rightarrow> v)"

definition dict_keys :: "('k, 'v) dict \<Rightarrow> 'k list" where
  "dict_keys d = map fst d"

text \<open>\<^verbatim>\<open>xs or []\<close> for an optional list, and the truth value of an optional string.\<close>

definition or_empty :: "'a list option \<Rightarrow> 'a list" where
  "or_empty xs = (case xs of None \<Rightarrow> [] | Some ys \<Rightarrow> ys)"

definition truthy :: "string option \<Rightarrow> bool" where
  "truthy s = (case s of None \<Rightarrow> False | Some t \<Rightarrow> t \<noteq> [])"

subsection \<open>Rendering an integer in an f-string\<close>

definition digit_char :: "nat \<Rightarrow> char" where
  "digit_char d =
     (if d = 0 then CHR ''0'' else if d = 1 then CHR ''1'' else if d = 2 then CHR ''2''
      else if d = 3 then CHR ''3'' else if d = 4 then CHR ''4'' else if d = 5 then CHR ''5''
      else if d = 6 then CHR ''6'' else if d = 7 then CHR ''7'' else if d = 8 then CHR ''8''
      else CHR ''9'')"

fun str_nat :: "nat \<Rightarrow> string" where
  "str_nat n = (if n < 10 then [digit_char n] else str_nat (n div 10) @ [digit_char (n mod 10)])"

declare str_nat.simps [simp del]

definition str_int :: "int \<Rightarrow> string" where
  "str_int i = (if i < 0 then CHR ''-'' # str_nat (nat (- i)) else str_nat (nat i))"

definition join_lines :: "string list \<Rightarrow> string" where
  "join_lines ls = concat (case ls of [] \<Rightarrow> [] | l # rest \<Rightarrow> l # map (\<lambda>x. CHR ''\<newline>'' # x) rest)"

section \<open>Forward map\<close>

type_synonym fwd_map = "(string, (string, call_forward) dict) dict"

fun build_forward_map_loop :: "call_forward list \<Rightarrow> fwd_map \<Rightarrow> fwd_map" where
  "build_forward_map_loop [] fwd_map = fwd_map"
| "build_forward_map_loop (fwd # forwards) fwd_map =
     (let m = (if dict_get fwd_map (fwd_extension fwd) = None
               then dict_set fwd_map (fwd_extension fwd) [] else fwd_map);
          inner = dict_get_default m (fwd_extension fwd) []
      in build_forward_map_loop forwards
           (dict_set m (fwd_extension fwd) (dict_set inner (forward_type fwd) fwd)))"

definition build_forward_map :: "call_forward list \<Rightarrow> fwd_map" where
  "build_forward_map forwards = build_forward_map_loop forwards []"

section \<open>Dial logic for one extension\<close>

text \<open>
  \<^verbatim>\<open>_generate_dial_logic\<close> appends instruction lines to the list \<^verbatim>\<open>lines\<close> and
  returns them joined by newlines. \<open>dial_logic_lines\<close> is that list,
  \<open>generate_dial_logic\<close> the joined text. A row object is always true in a
  condition, so \<^verbatim>\<open>if cfu\<close> asks whether the lookup found a forward.
\<close>

definition dial_logic_lines :: "string \<Rightarrow> fwd_map \<Rightarrow> int \<Rightarrow> bool \<Rightarrow> string list" where
  \<open>dial_logic_lines extension fwd_map ring_time early_answer =
     (let forwards = dict_get_default fwd_map extension [];
          cfu = dict_get forwards ''unconditional'';
          cfb = dict_get forwards ''busy'';
          cfna = dict_get forwards ''no_answer''
      in case cfu of
        Some u \<Rightarrow>
          ['' same => n,NoOp(CFU active: forwarding to '' @ destination u @ '')''] @
          (if early_answer then ['' same => n,Answer()'', '' same => n,Wait(0.5)''] else []) @
          ['' same => n,Dial(PJSIP/'' @ destination u @ ''@trunk,'' @ str_int ring_time @ '',tT)'',
           '' same => n,Hangup()'']
      | None \<Rightarrow>
          (if early_answer then ['' same => n,Answer()'', '' same => n,Wait(0.5)''] else []) @
          (let actual_ring = (case cfna of Some na \<Rightarrow> fwd_ring_time na | None \<Rightarrow> ring_time) in
           ['' same => n,Set(DEVICE_STATE=${DEVICE_STATE(PJSIP/'' @ extension @ '')})'',
            '' same => n,GotoIf($["${DEVICE_STATE}" = "UNAVAILABLE"]?unavail)'',
            '' same => n,GotoIf($["${DEVICE_STATE}" = "INVALID"]?unavail)'',
            '' same => n,Dial(PJSIP/'' @ extension @ '','' @ str_int actual_ring @ '',tTr)'']) @
          (case (cfb, cfna) of
             (Some b, Some na) \<Rightarrow>
               ['' same => n,GotoIf($["${DIALSTATUS}" = "BUSY"]?busy:noanswer)'',
                '' same => n(noanswer),NoOp(CFNA: forwarding to '' @ destination na @ '')'',
                '' same => n,Dial(PJSIP/'' @ destination na @ ''@trunk,30,tT)'',
                '' same => n,VoiceMail('' @ extension @ ''@default,u)'',
                '' same => n,Hangup()'',
                '' same => n(busy),NoOp(CFB: forwarding to '' @ destination b @ '')'',
                '' same => n,Dial(PJSIP/'' @ destination b @ ''@trunk,30,tT)'',
                '' same => n,VoiceMail('' @ extension @ ''@default,b)'',
                '' same => n,Hangup()'']
           | (Some b, None) \<Rightarrow>
               ['' same => n,GotoIf($["${DIALSTATUS}" = "BUSY"]?busy:unavail)'',
                '' same => n(unavail),VoiceMail('' @ extension @ ''@default,u)'',
                '' same => n,Hangup()'',
                '' same => n(busy),NoOp(CFB: forwarding to '' @ destination b @ '')'',
                '' same => n,Dial(PJSIP/'' @ destination b @ ''@trunk,30,tT)'',
                '' same => n,VoiceMail('' @ extension @ ''@default,b)'',
                '' same => n,Hangup()'']
           | (None, Some na) \<Rightarrow>
               ['' same => n,GotoIf($["${DIALSTATUS}" = "BUSY"]?busy:noanswer)'',
                '' same => n(noanswer),NoOp(CFNA: forwarding to '' @ destination na @ '')'',
                '' same => n,Dial(PJSIP/'' @ destination na @ ''@trunk,30,tT)'',
                '' same => n,VoiceMail('' @ extension @ ''@default,u)'',
                '' same => n,Hangup()'',
                '' same => n(busy),VoiceMail('' @ extension @ ''@default,b)'',
                '' same => n,Hangup()'']
           | (None, None) \<Rightarrow>
               ['' same => n,GotoIf($["${DIALSTATUS}" = "BUSY"]?busy:unavail)'',
                '' same => n(unavail),VoiceMail('' @ extension @ ''@default,u)'',
                '' same => n,Hangup()'',
                '' same => n(busy),VoiceMail('' @ extension @ ''@default,b)'',
                '' same => n,Hangup()'']))\<close>

definition generate_dial_logic :: "string \<Rightarrow> fwd_map \<Rightarrow> int \<Rightarrow> bool \<Rightarrow> string" where
  "generate_dial_logic extension fwd_map ring_time early_answer =
     join_lines (dial_logic_lines extension fwd_map ring_time early_answer)"

section \<open>Outbound map\<close>

type_synonym outbound_map = "(string, inbound_route \<times> string option) dict"

fun build_peer_map :: "sip_peer list \<Rightarrow> (string, sip_peer) dict \<Rightarrow> (string, sip_peer) dict" where
  "build_peer_map [] peer_map = peer_map"
| "build_peer_map (p # peers) peer_map = build_peer_map peers (dict_set peer_map (peer_extension p) p)"

fun group_routes ::
  "inbound_route list \<Rightarrow> (string, inbound_route list) dict \<Rightarrow> (string, inbound_route list) dict" where
  "group_routes [] routes_by_ext = routes_by_ext"
| "group_routes (route # routes) routes_by_ext =
     (let ext = destination_extension route;
          m = (if dict_get routes_by_ext ext = None then dict_set routes_by_ext ext [] else routes_by_ext)
      in group_routes routes (dict_set m ext (dict_get_default m ext [] @ [route])))"

text \<open>
  The body of the loop over \<^verbatim>\<open>routes_by_ext.items()\<close>: \<^verbatim>\<open>ext_routes[0]\<close> raises
  \<^verbatim>\<open>IndexError\<close> on an empty list; the inner loop with \<^verbatim>\<open>break\<close> keeps the first
  route whose DID is the peer's \<^verbatim>\<open>outbound_cid\<close>. The dictionary
  \<^verbatim>\<open>{"route": ..., "pai": ...}\<close> is the pair of its two values.
\<close>

definition select_outbound ::
  "sip_peer option \<Rightarrow> inbound_route list \<Rightarrow> py_error + (inbound_route \<times> string option)" where
  "select_outbound peer ext_routes =
     (case ext_routes of
        [] \<Rightarrow> Inl IndexError
      | first # _ \<Rightarrow>
          (let selected_route =
             (case peer of
                None \<Rightarrow> first
              | Some p \<Rightarrow>
                  (if truthy (outbound_cid p)
                   then (case find (\<lambda>r. Some (did r) = outbound_cid p) ext_routes of
                           Some r \<Rightarrow> r | None \<Rightarrow> first)
                   else first))
           in Inr (selected_route, (case peer of Some p \<Rightarrow> pai p | None \<Rightarrow> None))))"

fun build_outbound_loop ::
  "(string, sip_peer) dict \<Rightarrow> (string \<times> inbound_route list) list \<Rightarrow> outbound_map \<Rightarrow> py_error + outbound_map" where
  "build_outbound_loop peer_map [] outbound = Inr outbound"
| "build_outbound_loop peer_map ((ext, ext_routes) # items) outbound =
     (case select_outbound (dict_get peer_map ext) ext_routes of
        Inl e \<Rightarrow> Inl e
      | Inr info \<Rightarrow> build_outbound_loop peer_map items (dict_set outbound ext info))"

definition build_outbound_map :: "inbound_route list \<Rightarrow> sip_peer list option \<Rightarrow> py_error + outbound_map" where
  "build_outbound_map routes peers =
     (let peer_map = build_peer_map (or_empty peers) [];
          routes_by_ext = group_routes routes []
      in build_outbound_loop peer_map routes_by_ext [])"

section \<open>Ring-timeout map\<close>

text \<open>
  \<^verbatim>\<open>mb.ring_timeout or 20\<close>: the timeout, or 20 when it is \<^verbatim>\<open>None\<close> or zero. The
  dictionary comprehension stores it under the mailbox's extension, a later
  mailbox replacing an earlier one of the same extension.
\<close>

definition resolved_timeout :: "voicemail_mailbox \<Rightarrow> int" where
  "resolved_timeout mb = (case ring_timeout mb of None \<Rightarrow> 20 | Some t \<Rightarrow> if t = 0 then 20 else t)"

fun build_ring_timeout_loop :: "voicemail_mailbox list \<Rightarrow> (string, int) dict \<Rightarrow> (string, int) dict" where
  "build_ring_timeout_loop [] m = m"
| "build_ring_timeout_loop (mb # mailboxes) m =
     build_ring_timeout_loop mailboxes (dict_set m (mb_extension mb) (resolved_timeout mb))"

definition build_ring_timeout_map :: "voicemail_mailbox list \<Rightarrow> (string, int) dict" where
  "build_ring_timeout_map mailboxes = build_ring_timeout_loop mailboxes []"

section \<open>The compiler\<close>

definition config_header :: string where
  \<open>config_header =
     ''; Auto-generated dialplan configuration\<newline>'' @
     ''; Generated by Asterisk PBX GUI\<newline>'' @
     ''\<newline>'' @
     ''[general]\<newline>'' @
     ''static=yes\<newline>'' @
     ''writeprotect=no\<newline>'' @
     ''clearglobalvars=no\<newline>'' @
     ''\<newline>'' @
     ''[globals]\<newline>'' @
     ''\<newline>'' @
     ''[internal]\<newline>'' @
     ''; Internal Extension Dialing (PJSIP)\<newline>'' @
     ''exten => _1XXX,1,NoOp(Internal Call from ${CALLERID(all)} to ${EXTEN})\<newline>'' @
     '' same => n,Set(CALLERID(name)=${CALLERID(name)})\<newline>''\<close>

definition config_static :: string where
  \<open>config_static =
     ''; Voicemail access - dial *98 to check voicemail\<newline>'' @
     ''exten => *98,1,NoOp(Voicemail Access for ${CALLERID(num)})\<newline>'' @
     '' same => n,Answer()\<newline>'' @
     '' same => n,Wait(0.5)\<newline>'' @
     '' same => n,VoiceMailMain(${CALLERID(num)}@default)\<newline>'' @
     '' same => n,Hangup()\<newline>'' @
     ''\<newline>'' @
     ''; Voicemail direct - dial *97 + extension\<newline>'' @
     ''exten => _*97XXXX,1,NoOp(Direct Voicemail for ${EXTEN:3})\<newline>'' @
     '' same => n,Answer()\<newline>'' @
     '' same => n,Wait(0.5)\<newline>'' @
     '' same => n,VoiceMail(${EXTEN:3}@default)\<newline>'' @
     '' same => n,Hangup()\<newline>'' @
     ''\<newline>'' @
     ''; Echo test\<newline>'' @
     ''exten => *43,1,Answer()\<newline>'' @
     '' same => n,Echo()\<newline>'' @
     '' same => n,Hangup()\<newline>'' @
     ''\<newline>'' @
     ''[from-trunk]\<newline>'' @
     ''; Inbound DID routing - auto-generated\<newline>''\<close>

definition config_did_extract :: string where
  \<open>config_did_extract =
     ''\<newline>'' @
     ''; Extract DID from To header when Request-URI has no user part\<newline>'' @
     ''exten => s,1,NoOp(Inbound call with no DID in Request-URI)\<newline>'' @
     '' same => n,Set(TO_HDR=${PJSIP_HEADER(read,To)})\<newline>'' @
     '' same => n,Set(DID=${CUT(CUT(TO_HDR,@,1),:,2)})\<newline>'' @
     '' same => n,NoOp(Extracted DID: ${DID})\<newline>'' @
     '' same => n,GotoIf($[${LEN(${DID})} > 0]?from-trunk,${DID},1)\<newline>'' @
     '' same => n,NoOp(Could not extract DID from To header)\<newline>'' @
     '' same => n,Hangup()\<newline>'' @
     ''\<newline>''\<close>

definition config_no_routes :: string where
  \<open>config_no_routes =
     ''\<newline>'' @
     ''; No inbound routes configured\<newline>'' @
     ''exten => _X.,1,NoOp(Unrouted inbound call to ${EXTEN})\<newline>'' @
     '' same => n,Hangup()\<newline>''\<close>

definition config_catch_all :: string where
  \<open>config_catch_all =
     ''\<newline>'' @
     ''; Catch-all for unmatched inbound calls\<newline>'' @
     ''exten => _[+0-9].,1,NoOp(Unmatched inbound DID ${EXTEN})\<newline>'' @
     '' same => n,Hangup()\<newline>''\<close>


fun build_trunk_map :: "sip_trunk list \<Rightarrow> (int, sip_trunk) dict \<Rightarrow> (int, sip_trunk) dict" where
  "build_trunk_map [] trunk_map = trunk_map"
| "build_trunk_map (t # trunks) trunk_map = build_trunk_map trunks (dict_set trunk_map (trunk_ident t) t)"

text \<open>
  \<^verbatim>\<open>override_extensions\<close> is a Python \<^verbatim>\<open>set\<close>: the keys of the forward map, and each
  extension of the ring-timeout map whose timeout is not 20. The generator reads
  it through \<^verbatim>\<open>sorted\<close> only.
\<close>

definition override_extensions :: "fwd_map \<Rightarrow> (string, int) dict \<Rightarrow> string set" where
  "override_extensions fwd_map ring_timeout_map =
     set (dict_keys fwd_map) \<union>
     set (map fst (filter (\<lambda>(ext, timeout). timeout \<noteq> 20) ring_timeout_map))"

definition override_block :: "fwd_map \<Rightarrow> (string, int) dict \<Rightarrow> string \<Rightarrow> string" where
  \<open>override_block fwd_map ring_timeout_map ext =
     (let ext_ring = dict_get_default ring_timeout_map ext 20 in
      ''; Extension '' @ ext @ '' - custom rules\<newline>'' @
      ''exten => '' @ ext @ '',1,NoOp(Call to '' @ ext @ '' with forwarding)\<newline>'' @
      '' same => n,Set(CALLERID(name)=${CALLERID(name)})\<newline>'' @
      generate_dial_logic ext fwd_map ext_ring False @
      ''\<newline>\<newline>'')\<close>

definition outbound_goto :: "string \<Rightarrow> string" where
  \<open>outbound_goto ext =
     '' same => n,GotoIf($["${CHANNEL(endpoint)}x" = "'' @ ext @ ''x"]?out-'' @ ext @ '')\<newline>''\<close>

definition outbound_label :: "(int, sip_trunk) dict \<Rightarrow> string \<times> inbound_route \<times> string option \<Rightarrow> string" where
  \<open>outbound_label trunk_map item =
     (case item of (ext, route, pai_value) \<Rightarrow>
      (let tid = trunk_id route in
       ''\<newline> same => n(out-'' @ ext @ ''),NoOp(Outbound via trunk-ep-'' @ str_int tid @
         '' with CID '' @ did route @ '')\<newline>'' @
       '' same => n,Set(CALLERID(num)='' @ did route @ '')\<newline>'' @
       (case pai_value of
          None \<Rightarrow> []
        | Some pai_user \<Rightarrow>
            (if pai_user = [] then []
             else (let pai_domain = (case dict_get trunk_map tid of
                                       Some trunk \<Rightarrow> sip_server trunk | None \<Rightarrow> ''localhost'')
                   in '' same => n,Set(PJSIP_HEADER(add,P-Asserted-Identity)=<sip:'' @ pai_user @
                        ''@'' @ pai_domain @ ''>)\<newline>''))) @
       '' same => n,Dial(PJSIP/${EXTEN}@trunk-ep-'' @ str_int tid @ '',120,tT)\<newline>'' @
       '' same => n,Hangup()\<newline>''))\<close>

definition outbound_contexts :: "outbound_map \<Rightarrow> (int, sip_trunk) dict \<Rightarrow> string" where
  \<open>outbound_contexts outbound_map trunk_map =
     ''; === Outbound calling via assigned trunks ===\<newline>'' @
     ''exten => _0X.,1,NoOp(Outbound call from ${CHANNEL(endpoint)} to ${EXTEN})\<newline>'' @
     concat (map outbound_goto (dict_keys outbound_map)) @
     '' same => n,NoOp(No outbound route for this extension)\<newline>'' @
     '' same => n,Playback(ss-noservice)\<newline>'' @
     '' same => n,Hangup()\<newline>'' @
     concat (map (outbound_label trunk_map) outbound_map) @
     ''\<newline>'' @
     ''; International with + prefix\<newline>'' @
     ''exten => _+X.,1,NoOp(Outbound intl call from ${CHANNEL(endpoint)} to ${EXTEN})\<newline>'' @
     concat (map outbound_goto (dict_keys outbound_map)) @
     '' same => n,Playback(ss-noservice)\<newline>'' @
     '' same => n,Hangup()\<newline>'' @
     concat (map (outbound_label trunk_map) outbound_map) @
     ''\<newline>''\<close>

definition inbound_block :: "fwd_map \<Rightarrow> (string, int) dict \<Rightarrow> inbound_route \<Rightarrow> string" where
  \<open>inbound_block fwd_map ring_timeout_map route =
     (let desc = (if truthy (description route) then or_empty (description route) else did route);
          ext = destination_extension route;
          ext_ring = dict_get_default ring_timeout_map ext 20
      in ''\<newline>; '' @ desc @ ''\<newline>'' @
         ''exten => '' @ did route @ '',1,NoOp(Inbound call to DID '' @ did route @ '')\<newline>'' @
         '' same => n,Set(CALLERID(name)=${CALLERID(name)})\<newline>'' @
         generate_dial_logic ext fwd_map ext_ring True @
         ''\<newline>'')\<close>

text \<open>
  The sections of the text, in the order in which \<^verbatim>\<open>generate_extensions_config\<close>
  appends them: the internal context with the generic dial logic, one override
  block for each extension of \<^verbatim>\<open>sorted(override_extensions)\<close>, the outbound
  contexts when the outbound map is not empty, the static extensions with the
  head of the from-trunk context, the DID extraction handler, one block for each
  inbound route (or the text for no routes), and the catch-all.
\<close>

definition internal_context :: string where
  \<open>internal_context =
     config_header @ generate_dial_logic ''${EXTEN}'' [] 20 False @ ''\<newline>\<newline>''\<close>

definition override_section :: "fwd_map \<Rightarrow> (string, int) dict \<Rightarrow> string" where
  "override_section fwd_map ring_timeout_map =
     concat (map (override_block fwd_map ring_timeout_map)
               (sorted_list_of_set (override_extensions fwd_map ring_timeout_map)))"

definition outbound_section :: "outbound_map \<Rightarrow> (int, sip_trunk) dict \<Rightarrow> string" where
  "outbound_section outbound_map trunk_map =
     (if outbound_map \<noteq> [] then outbound_contexts outbound_map trunk_map else [])"

definition inbound_section :: "fwd_map \<Rightarrow> (string, int) dict \<Rightarrow> inbound_route list \<Rightarrow> string" where
  "inbound_section fwd_map ring_timeout_map routes =
     (if routes \<noteq> [] then concat (map (inbound_block fwd_map ring_timeout_map) routes)
      else config_no_routes)"

text \<open>
  \<^verbatim>\<open>generate_extensions_config\<close>: the lookup maps first, then the text. Building
  the outbound map is the one step that can raise.
\<close>

definition generate_extensions_config ::
  "inbound_route list \<Rightarrow> call_forward list option \<Rightarrow> voicemail_mailbox list option \<Rightarrow>
   sip_peer list option \<Rightarrow> sip_trunk list option \<Rightarrow> py_error + string" where
  \<open>generate_extensions_config routes forwards mailboxes peers trunks =
     (let fwd_map = build_forward_map (or_empty forwards) in
      case build_outbound_map routes peers of
        Inl e \<Rightarrow> Inl e
      | Inr outbound_map \<Rightarrow>
          (let trunk_map = build_trunk_map (or_empty trunks) [];
               ring_timeout_map = build_ring_timeout_map (or_empty mailboxes)
           in Inr
             (internal_context @
              override_section fwd_map ring_timeout_map @
              outbound_section outbound_map trunk_map @
              config_static @
              config_did_extract @
              inbound_section fwd_map ring_timeout_map routes @
              config_catch_all)))\<close>

section \<open>Reading instruction lines\<close>

text \<open>
  The dialplan syntax of the generated lines: a continuation line is
  \<^verbatim>\<open> same => n,App(args)\<close> or, with a label, \<^verbatim>\<open> same => n(label),App(args)\<close>.
  \<open>parse_line\<close> reads the application name and the text after its opening
  parenthesis from such a line; the properties below speak about the
  instructions of a block through it.
\<close>

fun strip_prefix :: "string \<Rightarrow> string \<Rightarrow> string option" where
  "strip_prefix [] s = Some s"
| "strip_prefix (p # ps) [] = None"
| "strip_prefix (p # ps) (c # cs) = (if p = c then strip_prefix ps cs else None)"

fun skip_label :: "string \<Rightarrow> string" where
  "skip_label [] = []"
| "skip_label (c # cs) =
     (if c = CHR ''('' then drop 1 (dropWhile (\<lambda>x. x \<noteq> CHR '')'') cs) else c # cs)"

definition parse_line :: "string \<Rightarrow> (string \<times> string) option" where
  \<open>parse_line l =
     (case strip_prefix '' same => n'' l of
        None \<Rightarrow> None
      | Some r \<Rightarrow>
          (case strip_prefix '','' (skip_label r) of
             None \<Rightarrow> None
           | Some t \<Rightarrow> Some (takeWhile (\<lambda>x. x \<noteq> CHR ''('') t,
                              drop 1 (dropWhile (\<lambda>x. x \<noteq> CHR ''('') t))))\<close>

definition line_app :: "string \<Rightarrow> string option" where
  "line_app l = map_option fst (parse_line l)"

definition line_args :: "string \<Rightarrow> string" where
  "line_args l = (case parse_line l of None \<Rightarrow> [] | Some (a, args) \<Rightarrow> args)"

text \<open>
  A device-state probe is the instruction that stores \<^verbatim>\<open>DEVICE_STATE\<close> or a
  conditional jump that tests it.
\<close>

definition device_state_probe :: "string \<Rightarrow> bool" where
  \<open>device_state_probe l \<longleftrightarrow>
     (line_app l = Some ''Set'' \<and> strip_prefix ''DEVICE_STATE='' (line_args l) \<noteq> None) \<or>
     (line_app l = Some ''GotoIf'' \<and> strip_prefix ''$["${DEVICE_STATE}"'' (line_args l) \<noteq> None)\<close>

text \<open>The forward of one type that the forward map holds for an extension.\<close>

definition forward_of :: "fwd_map \<Rightarrow> string \<Rightarrow> string \<Rightarrow> call_forward option" where
  "forward_of fwd_map extension ftype = dict_get (dict_get_default fwd_map extension []) ftype"

text \<open>
  The row a lookup dictionary keeps for an extension when several rows share
  it: each store replaces the one before, so it is the last row in input order.
\<close>

definition mailbox_of :: "voicemail_mailbox list \<Rightarrow> string \<Rightarrow> voicemail_mailbox option" where
  "mailbox_of mailboxes ext = find (\<lambda>mb. mb_extension mb = ext) (rev mailboxes)"

definition peer_of :: "sip_peer list \<Rightarrow> string \<Rightarrow> sip_peer option" where
  "peer_of peers ext = find (\<lambda>p. peer_extension p = ext) (rev peers)"

section \<open>Reading the generated text\<close>

text \<open>
  The text is read as the engine reads it: split into lines at the line
  breaks; a line \<^verbatim>\<open>exten => pattern,1,...\<close> is an extension-match header and
  its pattern is the text up to the first comma; the from-trunk context is the
  lines after the last line \<^verbatim>\<open>[from-trunk]\<close>, which opens the last context of
  the text. Its first header is the handler \<^verbatim>\<open>s\<close> and its last the catch-all;
  \<open>route_patterns\<close> are the patterns of the headers between the two.
  \<open>unlines\<close> ends each line of a list with a line break, and
  \<open>inbound_block_lines\<close> are the lines of the block of one inbound route.
  A route is well formed for this reading when none of its strings holds a
  line break and its DID holds no comma. \<open>override_block_lines\<close> are the lines
  of the override block of one extension, and an extension is safe as a
  pattern when it holds neither a line break nor a comma.
\<close>

fun text_lines :: "string \<Rightarrow> string list" where
  "text_lines [] = [[]]"
| "text_lines (c # cs) =
     (if c = CHR ''\<newline>'' then [] # text_lines cs
      else (case text_lines cs of [] \<Rightarrow> [[c]] | l # ls \<Rightarrow> (c # l) # ls))"

definition unlines :: "string list \<Rightarrow> string" where
  "unlines ls = concat (map (\<lambda>l. l @ [CHR ''\<newline>'']) ls)"

definition exten_pattern :: "string \<Rightarrow> string option" where
  "exten_pattern l = map_option (takeWhile (\<lambda>x. x \<noteq> CHR '','')) (strip_prefix ''exten => '' l)"

fun header_patterns :: "string list \<Rightarrow> string list" where
  "header_patterns [] = []"
| "header_patterns (l # ls) =
     (case exten_pattern l of None \<Rightarrow> header_patterns ls | Some p \<Rightarrow> p # header_patterns ls)"

definition from_trunk_lines :: "string \<Rightarrow> string list" where
  "from_trunk_lines text = rev (takeWhile (\<lambda>l. l \<noteq> ''[from-trunk]'') (rev (text_lines text)))"

definition from_trunk_patterns :: "string \<Rightarrow> string list" where
  "from_trunk_patterns text = header_patterns (from_trunk_lines text)"

definition route_patterns :: "string \<Rightarrow> string list" where
  "route_patterns text = butlast (tl (from_trunk_patterns text))"

definition newline_free :: "string \<Rightarrow> bool" where
  "newline_free s \<longleftrightarrow> CHR ''\<newline>'' \<notin> set s"

definition wf_route :: "inbound_route \<Rightarrow> bool" where
  "wf_route r \<longleftrightarrow>
     newline_free (did r) \<and> CHR '','' \<notin> set (did r) \<and>
     newline_free (destination_extension r) \<and> newline_free (or_empty (description r))"

definition inbound_block_lines :: "fwd_map \<Rightarrow> (string, int) dict \<Rightarrow> inbound_route \<Rightarrow> string list" where
  \<open>inbound_block_lines fwd_map ring_timeout_map route =
     [[],
      ''; '' @ (if truthy (description route) then or_empty (description route) else did route),
      ''exten => '' @ did route @ '',1,NoOp(Inbound call to DID '' @ did route @ '')'',
      '' same => n,Set(CALLERID(name)=${CALLERID(name)})''] @
     dial_logic_lines (destination_extension route) fwd_map
       (dict_get_default ring_timeout_map (destination_extension route) 20) True\<close>

definition static_head :: string where
  \<open>static_head =
     ''; Voicemail access - dial *98 to check voicemail\<newline>'' @
     ''exten => *98,1,NoOp(Voicemail Access for ${CALLERID(num)})\<newline>'' @
     '' same => n,Answer()\<newline>'' @
     '' same => n,Wait(0.5)\<newline>'' @
     '' same => n,VoiceMailMain(${CALLERID(num)}@default)\<newline>'' @
     '' same => n,Hangup()\<newline>'' @
     ''\<newline>'' @
     ''; Voicemail direct - dial *97 + extension\<newline>'' @
     ''exten => _*97XXXX,1,NoOp(Direct Voicemail for ${EXTEN:3})\<newline>'' @
     '' same => n,Answer()\<newline>'' @
     '' same => n,Wait(0.5)\<newline>'' @
     '' same => n,VoiceMail(${EXTEN:3}@default)\<newline>'' @
     '' same => n,Hangup()\<newline>'' @
     ''\<newline>'' @
     ''; Echo test\<newline>'' @
     ''exten => *43,1,Answer()\<newline>'' @
     '' same => n,Echo()\<newline>'' @
     '' same => n,Hangup()\<newline>''\<close>

definition route_patterns_distinct :: "py_error + string \<Rightarrow> bool" where
  "route_patterns_distinct result =
     (case result of Inl e \<Rightarrow> False | Inr text \<Rightarrow> distinct (route_patterns text))"

definition pattern_safe :: "string \<Rightarrow> bool" where
  "pattern_safe s \<longleftrightarrow> newline_free s \<and> CHR '','' \<notin> set s"

definition override_block_lines :: "fwd_map \<Rightarrow> (string, int) dict \<Rightarrow> string \<Rightarrow> string list" where
  \<open>override_block_lines fwd_map ring_timeout_map ext =
     [''; Extension '' @ ext @ '' - custom rules'',
      ''exten => '' @ ext @ '',1,NoOp(Call to '' @ ext @ '' with forwarding)'',
      '' same => n,Set(CALLERID(name)=${CALLERID(name)})''] @
     dial_logic_lines ext fwd_map (dict_get_default ring_timeout_map ext 20) False @
     [[]]\<close>


text \<open>
  The fixed lines of the from-trunk context: the lines between its opening
  line and the route blocks (the handler \<^verbatim>\<open>s\<close>), the lines that stand for
  the route blocks when there is no route, and the lines of the catch-all.
\<close>

definition from_trunk_head_lines :: "string list" where
  \<open>from_trunk_head_lines =
     [''; Inbound DID routing - auto-generated'',
      [],
      ''; Extract DID from To header when Request-URI has no user part'',
      ''exten => s,1,NoOp(Inbound call with no DID in Request-URI)'',
      '' same => n,Set(TO_HDR=${PJSIP_HEADER(read,To)})'',
      '' same => n,Set(DID=${CUT(CUT(TO_HDR,@,1),:,2)})'',
      '' same => n,NoOp(Extracted DID: ${DID})'',
      '' same => n,GotoIf($[${LEN(${DID})} > 0]?from-trunk,${DID},1)'',
      '' same => n,NoOp(Could not extract DID from To header)'',
      '' same => n,Hangup()'',
      []]\<close>

definition no_routes_lines :: "string list" where
  \<open>no_routes_lines =
     [[],
      ''; No inbound routes configured'',
      ''exten => _X.,1,NoOp(Unrouted inbound call to ${EXTEN})'',
      '' same => n,Hangup()'']\<close>

definition catch_all_lines :: "string list" where
  \<open>catch_all_lines =
     [[],
      ''; Catch-all for unmatched inbound calls'',
      ''exten => _[+0-9].,1,NoOp(Unmatched inbound DID ${EXTEN})'',
      '' same => n,Hangup()'']\<close>

section \<open>Example rows\<close>

definition cfu_example :: call_forward where
  "cfu_example = \<lparr>fwd_extension = ''1000'', forward_type = ''unconditional'',
                   destination = ''0172'', fwd_ring_time = 15\<rparr>"

definition cfna_example :: call_forward where
  "cfna_example = \<lparr>fwd_extension = ''1002'', forward_type = ''no_answer'',
                    destination = ''0171'', fwd_ring_time = 15\<rparr>"

definition cfb_example :: call_forward where
  "cfb_example = \<lparr>fwd_extension = ''1002'', forward_type = ''busy'',
                   destination = ''0173'', fwd_ring_time = 25\<rparr>"

definition route_a :: inbound_route where
  "route_a = \<lparr>did = ''4912340'', destination_extension = ''1001'', description = Some ''Main'', trunk_id = 1\<rparr>"

definition route_b :: inbound_route where
  "route_b = \<lparr>did = ''4912341'', destination_extension = ''1001'', description = None, trunk_id = 2\<rparr>"

definition peer_example :: sip_peer where
  "peer_example = \<lparr>peer_extension = ''1001'', outbound_cid = Some ''4912341'', pai = Some ''alice''\<rparr>"

definition mailbox_zero :: voicemail_mailbox where
  "mailbox_zero = \<lparr>mb_extension = ''1001'', ring_timeout = Some 0\<rparr>"

definition mailbox_long :: voicemail_mailbox where
  "mailbox_long = \<lparr>mb_extension = ''1003'', ring_timeout = Some 45\<rparr>"

definition route_dup_a :: inbound_route where
  "route_dup_a = \<lparr>did = ''100'', destination_extension = ''1001'', description = None, trunk_id = 1\<rparr>"

definition route_dup_b :: inbound_route where
  "route_dup_b = \<lparr>did = ''100'', destination_extension = ''1002'', description = None, trunk_id = 1\<rparr>"


definition mailbox_dup :: voicemail_mailbox where
  "mailbox_dup = \<lparr>mb_extension = ''1001'', ring_timeout = Some 45\<rparr>"

section \<open>Properties of the dial logic\<close>

lemma probe_app:
  "device_state_probe l \<Longrightarrow> line_app l = Some ''Set'' \<or> line_app l = Some ''GotoIf''"
  by (auto simp: device_state_probe_def)

lemmas line_simps = line_app_def parse_line_def line_args_def

lemma str_int_20: "str_int 20 = ''20''"
  by (simp add: str_int_def str_nat.simps digit_char_def)

lemma dial_cases:
  obtains (cfu) u where "forward_of fwd_map extension ''unconditional'' = Some u"
  | (other) "forward_of fwd_map extension ''unconditional'' = None"
  by (cases "forward_of fwd_map extension ''unconditional''") auto

lemma join_lines_Cons: "join_lines (l # ls) = l @ concat (map ((#) CHR ''\<newline>'') ls)"
  by (simp add: join_lines_def)

lemma dial_logic_lines_first:
  "\<exists>l ls. dial_logic_lines extension fwd_map ring_time early_answer = l # ls \<and> l \<noteq> []"
  by (cases "forward_of fwd_map extension ''unconditional''"; cases early_answer)
     (simp_all add: dial_logic_lines_def forward_of_def Let_def)

lemma generate_dial_logic_nonempty:
  "generate_dial_logic extension fwd_map ring_time early_answer \<noteq> []"
proof -
  obtain l ls where "dial_logic_lines extension fwd_map ring_time early_answer = l # ls" "l \<noteq> []"
    using dial_logic_lines_first by blast
  then show ?thesis by (simp add: generate_dial_logic_def join_lines_Cons)
qed

lemma answer_iff:
  "Some ''Answer'' \<in> set (map line_app (dial_logic_lines extension fwd_map ring_time early_answer))
     \<longleftrightarrow> early_answer"
  by (cases "forward_of fwd_map extension ''unconditional''";
      cases "forward_of fwd_map extension ''no_answer''"; cases "forward_of fwd_map extension ''busy''";
      cases early_answer)
     (simp_all add: dial_logic_lines_def forward_of_def line_simps)

lemma answer_first:
  \<open>\<exists>pre post. dial_logic_lines extension fwd_map ring_time True =
       pre @ ['' same => n,Answer()'', '' same => n,Wait(0.5)''] @ post \<and>
     (\<forall>l \<in> set pre. \<not> device_state_probe l \<and> line_app l \<noteq> Some ''Dial'')\<close>
proof (cases rule: dial_cases [of fwd_map extension])
  case (cfu u)
  have "dial_logic_lines extension fwd_map ring_time True =
      ['' same => n,NoOp(CFU active: forwarding to '' @ destination u @ '')''] @
      ['' same => n,Answer()'', '' same => n,Wait(0.5)''] @
      ['' same => n,Dial(PJSIP/'' @ destination u @ ''@trunk,'' @ str_int ring_time @ '',tT)'',
       '' same => n,Hangup()'']"
    using cfu by (simp add: dial_logic_lines_def forward_of_def)
  moreover have "\<forall>l \<in> set ['' same => n,NoOp(CFU active: forwarding to '' @ destination u @ '')''].
      \<not> device_state_probe l \<and> line_app l \<noteq> Some ''Dial''"
    by (simp add: device_state_probe_def line_simps)
  ultimately show ?thesis by blast
next
  case other
  have "\<exists>post. dial_logic_lines extension fwd_map ring_time True =
      [] @ ['' same => n,Answer()'', '' same => n,Wait(0.5)''] @ post"
    using other by (simp add: dial_logic_lines_def forward_of_def Let_def)
  then show ?thesis by (metis empty_iff empty_set)
qed

section \<open>Dictionaries\<close>

lemma map_of_dict_set: "map_of (dict_set d k v) = (map_of d)(k \<mapsto> v)"
  by (induction d) (auto simp: fun_eq_iff)

lemma keys_dict_set: "fst ` set (dict_set d k v) = insert k (fst ` set d)"
  by (simp add: dom_map_of_conv_image_fst [symmetric] map_of_dict_set)

lemma distinct_dict_set: "distinct (map fst d) \<Longrightarrow> distinct (map fst (dict_set d k v))"
  by (induction d) (auto simp: keys_dict_set)

lemma dict_set_not_Nil: "dict_set d k v \<noteq> []"
  by (cases d) (auto split: if_splits)

lemma find_app:
  "find P (xs @ ys) = (case find P xs of None \<Rightarrow> find P ys | Some x \<Rightarrow> Some x)"
  by (induction xs) auto

lemma dict_get_dict_set: "dict_get (dict_set d k v) k' = (if k' = k then Some v else dict_get d k')"
  by (simp add: dict_get_def map_of_dict_set)

section \<open>Ring-timeout map\<close>

lemma ring_timeout_loop_lookup:
  "map_of (build_ring_timeout_loop mbs m) ext =
     (case find (\<lambda>mb. mb_extension mb = ext) (rev mbs) of
        Some mb \<Rightarrow> Some (resolved_timeout mb) | None \<Rightarrow> map_of m ext)"
proof (induction mbs arbitrary: m)
  case Nil
  then show ?case by simp
next
  case (Cons mb mbs)
  show ?case
    by (simp add: Cons.IH find_app map_of_dict_set split: option.splits)
qed

lemma ring_timeout_map_lookup:
  "dict_get (build_ring_timeout_map mailboxes) ext = map_option resolved_timeout (mailbox_of mailboxes ext)"
  by (simp add: dict_get_def build_ring_timeout_map_def ring_timeout_loop_lookup mailbox_of_def
      split: option.splits)

lemma ring_timeout_loop_distinct:
  "distinct (map fst m) \<Longrightarrow> distinct (map fst (build_ring_timeout_loop mbs m))"
  by (induction mbs arbitrary: m) (auto simp: distinct_dict_set)

lemma ring_timeout_map_distinct: "distinct (map fst (build_ring_timeout_map mailboxes))"
  by (simp add: build_ring_timeout_map_def ring_timeout_loop_distinct)

lemma resolved_timeout_nonzero: "resolved_timeout mb \<noteq> 0"
  by (simp add: resolved_timeout_def split: option.splits)

section \<open>Forward map\<close>

lemma forward_map_loop_keys:
  "fst ` set (build_forward_map_loop fs m) = fwd_extension ` set fs \<union> fst ` set m"
proof (induction fs arbitrary: m)
  case Nil
  then show ?case by simp
next
  case (Cons f fs)
  show ?case
    by (auto simp add: Cons.IH Let_def keys_dict_set simp del: dict_set.simps)
qed

lemma forward_map_keys: "set (dict_keys (build_forward_map forwards)) = fwd_extension ` set forwards"
  by (simp add: dict_keys_def build_forward_map_def forward_map_loop_keys)

section \<open>Override set\<close>

lemma filtered_keys:
  assumes "distinct (map fst d)"
  shows "set (map fst (filter (\<lambda>(ext, timeout). timeout \<noteq> dflt) d)) = {ext. dict_get_default d ext dflt \<noteq> dflt}"
proof -
  have "(\<exists>t. (ext, t) \<in> set d \<and> t \<noteq> dflt) \<longleftrightarrow> dict_get_default d ext dflt \<noteq> dflt" for ext
  proof (cases "map_of d ext")
    case None
    then have "\<And>t. (ext, t) \<notin> set d"
      by (metis map_of_SomeD map_of_eq_None_iff not_None_eq weak_map_of_SomeI)
    with None show ?thesis by (simp add: dict_get_default_def)
  next
    case (Some v)
    then have "\<And>t. (ext, t) \<in> set d \<longleftrightarrow> t = v"
      using assms by (metis map_of_is_SomeI map_of_SomeD option.inject)
    with Some show ?thesis by (simp add: dict_get_default_def)
  qed
  then have "{ext. \<exists>t. (ext, t) \<in> set d \<and> t \<noteq> dflt} = {ext. dict_get_default d ext dflt \<noteq> dflt}"
    by simp
  moreover have "set (map fst (filter (\<lambda>(ext, timeout). timeout \<noteq> dflt) d)) =
      {ext. \<exists>t. (ext, t) \<in> set d \<and> t \<noteq> dflt}"
    by (auto simp: image_iff)
  ultimately show ?thesis by simp
qed

lemma override_extensions_char:
  "override_extensions (build_forward_map forwards) (build_ring_timeout_map mailboxes) =
     fwd_extension ` set forwards \<union>
     {ext. dict_get_default (build_ring_timeout_map mailboxes) ext 20 \<noteq> 20}"
  unfolding override_extensions_def forward_map_keys
  using filtered_keys [OF ring_timeout_map_distinct, of 20 mailboxes] by simp

lemma finite_override_extensions: "finite (override_extensions fwd_map ring_timeout_map)"
  by (simp add: override_extensions_def)


section \<open>Outbound map\<close>

lemma set_dict_set: "(k', v') \<in> set (dict_set d k v) \<Longrightarrow> (k', v') = (k, v) \<or> (k', v') \<in> set d"
  by (induction d) (auto split: if_splits)

lemma peer_map_lookup:
  "dict_get (build_peer_map ps m) ext =
     (case find (\<lambda>p. peer_extension p = ext) (rev ps) of Some p \<Rightarrow> Some p | None \<Rightarrow> dict_get m ext)"
  by (induction ps arbitrary: m) (auto simp: find_app dict_get_dict_set split: option.splits)

lemma peer_map_of: "dict_get (build_peer_map ps []) ext = peer_of ps ext"
  using peer_map_lookup [of ps "[]" ext]
  by (simp add: peer_of_def dict_get_def split: option.splits)

lemma dict_set_twice: "dict_set (dict_set d k v0) k v = dict_set d k v"
  by (induction d) auto

lemma group_routes_Cons:
  "group_routes (r # rs) m =
     group_routes rs (dict_set m (destination_extension r)
                        (dict_get_default m (destination_extension r) [] @ [r]))"
proof (cases "dict_get m (destination_extension r)")
  case None
  then show ?thesis
    by (simp add: Let_def dict_set_twice dict_get_default_def dict_get_def map_of_dict_set
        del: dict_set.simps)
next
  case (Some l)
  then show ?thesis by (simp add: Let_def del: dict_set.simps)
qed

lemma group_routes_keys:
  "fst ` set (group_routes rs m) = destination_extension ` set rs \<union> fst ` set m"
  by (induction rs arbitrary: m)
     (auto simp: group_routes_Cons keys_dict_set simp del: dict_set.simps group_routes.simps(2))

lemma group_routes_distinct:
  "distinct (map fst m) \<Longrightarrow> distinct (map fst (group_routes rs m))"
  by (induction rs arbitrary: m)
     (auto simp: group_routes_Cons distinct_dict_set simp del: dict_set.simps group_routes.simps(2))

lemma group_routes_lookup:
  "map_of (group_routes rs m) ext =
     (if filter (\<lambda>r. destination_extension r = ext) rs = [] then map_of m ext
      else Some (dict_get_default m ext [] @ filter (\<lambda>r. destination_extension r = ext) rs))"
proof (induction rs arbitrary: m)
  case Nil
  then show ?case by simp
next
  case (Cons r rs)
  show ?case
    unfolding group_routes_Cons Cons.IH
    by (auto simp: map_of_dict_set dict_get_default_def)
qed

lemma group_routes_nonempty:
  "\<forall>(k, l) \<in> set m. l \<noteq> [] \<Longrightarrow> \<forall>(k, l) \<in> set (group_routes rs m). l \<noteq> []"
proof (induction rs arbitrary: m)
  case Nil
  then show ?case by simp
next
  case (Cons r rs)
  let ?e = "destination_extension r"
  let ?m2 = "dict_set m ?e (dict_get_default m ?e [] @ [r])"
  have "\<forall>(k, l) \<in> set ?m2. l \<noteq> []"
    using Cons.prems set_dict_set [of _ _ m ?e "dict_get_default m ?e [] @ [r]"] by fastforce
  then show ?case unfolding group_routes_Cons by (rule Cons.IH)
qed

text \<open>The choice the loop body makes for a non-empty group.\<close>

lemma select_outbound_Cons:
  "select_outbound peer (first # rest) =
     Inr ((case peer of
             None \<Rightarrow> first
           | Some p \<Rightarrow>
               if truthy (outbound_cid p)
               then (case find (\<lambda>r. Some (did r) = outbound_cid p) (first # rest) of
                       Some r \<Rightarrow> r | None \<Rightarrow> first)
               else first),
          (case peer of Some p \<Rightarrow> pai p | None \<Rightarrow> None))"
  by (simp add: select_outbound_def)

lemma outbound_loop_result:
  assumes "\<forall>(k, l) \<in> set items. l \<noteq> []" and "distinct (map fst items)"
  shows "\<exists>om. build_outbound_loop pm items out = Inr om \<and>
           fst ` set om = fst ` set items \<union> fst ` set out \<and>
           (\<forall>ext. map_of om ext =
              (case map_of items ext of
                 None \<Rightarrow> map_of out ext
               | Some l \<Rightarrow> (case select_outbound (dict_get pm ext) l of
                              Inr info \<Rightarrow> Some info | Inl e \<Rightarrow> None)))"
  using assms
proof (induction items arbitrary: out)
  case Nil
  then show ?case by simp
next
  case (Cons item items)
  obtain ext l where item: "item = (ext, l)" by (cases item)
  from Cons.prems item obtain first rest where l: "l = first # rest"
    by (cases l) auto
  obtain info where sel: "select_outbound (dict_get pm ext) l = Inr info"
    unfolding l select_outbound_Cons by blast
  have step: "build_outbound_loop pm (item # items) out =
      build_outbound_loop pm items (dict_set out ext info)"
    by (simp add: item sel)
  from Cons.prems have "\<forall>(k, l) \<in> set items. l \<noteq> []" "distinct (map fst items)"
    by auto
  from Cons.IH [OF this, of "dict_set out ext info"]
  obtain om where om: "build_outbound_loop pm items (dict_set out ext info) = Inr om"
    "fst ` set om = fst ` set items \<union> fst ` set (dict_set out ext info)"
    "\<And>e. map_of om e =
              (case map_of items e of
                 None \<Rightarrow> map_of (dict_set out ext info) e
               | Some l \<Rightarrow> (case select_outbound (dict_get pm e) l of
                              Inr info \<Rightarrow> Some info | Inl e \<Rightarrow> None))"
    by blast
  have notin: "map_of items ext = None"
    using Cons.prems(2) item by (simp add: map_of_eq_None_iff)
  have "map_of om e =
         (case map_of (item # items) e of
            None \<Rightarrow> map_of out e
          | Some l \<Rightarrow> (case select_outbound (dict_get pm e) l of
                         Inr info \<Rightarrow> Some info | Inl e \<Rightarrow> None))" for e
    using notin sel by (cases "e = ext") (simp_all add: om(3) item map_of_dict_set split: option.splits)
  moreover have "fst ` set om = fst ` set (item # items) \<union> fst ` set out"
    by (simp add: om(2) keys_dict_set item)
  ultimately show ?case unfolding step using om(1) by blast
qed

lemma build_outbound_map_result:
  "\<exists>om. build_outbound_map routes peers = Inr om \<and>
     fst ` set om = destination_extension ` set routes \<and>
     (\<forall>ext first rest.
        filter (\<lambda>r. destination_extension r = ext) routes = first # rest \<longrightarrow>
        dict_get om ext =
          Some ((case peer_of (or_empty peers) ext of
                   None \<Rightarrow> first
                 | Some p \<Rightarrow>
                     if truthy (outbound_cid p)
                     then (case find (\<lambda>r. Some (did r) = outbound_cid p) (first # rest) of
                             Some r \<Rightarrow> r | None \<Rightarrow> first)
                     else first),
                (case peer_of (or_empty peers) ext of Some p \<Rightarrow> pai p | None \<Rightarrow> None)))"
proof -
  let ?pm = "build_peer_map (or_empty peers) []"
  let ?items = "group_routes routes []"
  have ne: "\<forall>(k, l) \<in> set ?items. l \<noteq> []"
    by (rule group_routes_nonempty) simp
  have di: "distinct (map fst ?items)"
    by (rule group_routes_distinct) simp
  from outbound_loop_result [OF ne di, of ?pm "[]"]
  obtain om where om: "build_outbound_loop ?pm ?items [] = Inr om"
    "fst ` set om = fst ` set ?items \<union> fst ` set ([] :: outbound_map)"
    "\<And>ext. map_of om ext =
              (case map_of ?items ext of
                 None \<Rightarrow> map_of ([] :: outbound_map) ext
               | Some l \<Rightarrow> (case select_outbound (dict_get ?pm ext) l of
                              Inr info \<Rightarrow> Some info | Inl e \<Rightarrow> None))"
    by blast
  have "build_outbound_map routes peers = Inr om"
    by (simp add: build_outbound_map_def om(1))
  moreover have "fst ` set om = destination_extension ` set routes"
    by (simp add: om(2) group_routes_keys)
  moreover have "dict_get om ext =
          Some ((case peer_of (or_empty peers) ext of
                   None \<Rightarrow> first
                 | Some p \<Rightarrow>
                     if truthy (outbound_cid p)
                     then (case find (\<lambda>r. Some (did r) = outbound_cid p) (first # rest) of
                             Some r \<Rightarrow> r | None \<Rightarrow> first)
                     else first),
                (case peer_of (or_empty peers) ext of Some p \<Rightarrow> pai p | None \<Rightarrow> None))"
    if "filter (\<lambda>r. destination_extension r = ext) routes = first # rest" for ext first rest
  proof -
    have "map_of ?items ext = Some (first # rest)"
      using that by (simp add: group_routes_lookup dict_get_default_def)
    then show ?thesis
      by (simp add: dict_get_def om(3) select_outbound_Cons peer_map_of [unfolded dict_get_def])
  qed
  ultimately show ?thesis by blast
qed


lemma str_int_15: "str_int 15 = ''15''"
  by (simp add: str_int_def str_nat.simps digit_char_def)

lemmas lookup_simps = forward_of_def build_forward_map_def dict_get_def dict_get_default_def

section \<open>Ring timeouts in the override set\<close>

lemma mailbox_of_extension: "mailbox_of mailboxes ext = Some mb \<Longrightarrow> mb_extension mb = ext"
  unfolding mailbox_of_def by (metis (mono_tags, lifting) find_Some_iff)

lemma ring_timeout_map_nonzero: "dict_get (build_ring_timeout_map mailboxes) e \<noteq> Some 0"
  by (simp add: ring_timeout_map_lookup resolved_timeout_nonzero)

lemma ring_timeout_default_nonzero: "dict_get_default (build_ring_timeout_map mailboxes) e 20 \<noteq> 0"
  using ring_timeout_map_nonzero [of mailboxes e]
  by (auto simp: dict_get_default_def dict_get_def split: option.splits)

lemma override_extensions_iff:
  assumes "distinct (map fst ring_timeout_map)"
  shows "ext \<in> override_extensions fwd_map ring_timeout_map \<longleftrightarrow>
           ext \<in> set (dict_keys fwd_map) \<or> dict_get_default ring_timeout_map ext 20 \<noteq> 20"
  unfolding override_extensions_def using filtered_keys [OF assms, of 20] by simp

section \<open>The text of the configuration\<close>

lemma build_outbound_map_total:
  "\<exists>om. build_outbound_map routes peers = Inr om \<and>
     fst ` set om = destination_extension ` set routes"
  using build_outbound_map_result [of routes peers]
  by (elim exE conjE) (intro exI conjI, assumption, assumption)

lemma generate_extensions_config_text:
  assumes "build_outbound_map routes peers = Inr om"
  shows "generate_extensions_config routes forwards mailboxes peers trunks =
     Inr (internal_context @
          override_section (build_forward_map (or_empty forwards))
            (build_ring_timeout_map (or_empty mailboxes)) @
          outbound_section om (build_trunk_map (or_empty trunks) []) @
          config_static @
          config_did_extract @
          inbound_section (build_forward_map (or_empty forwards))
            (build_ring_timeout_map (or_empty mailboxes)) routes @
          config_catch_all)"
  by (simp add: generate_extensions_config_def assms Let_def)

lemma sort_enumeration:
  assumes "distinct es" and "set es = A"
  shows "sort es = sorted_list_of_set A"
  using assms by (metis distinct_remdups_id sorted_list_of_set_sort_remdups)

section \<open>Lines of the text\<close>

lemma text_lines_nonempty: "text_lines s \<noteq> []"
  by (induction s) (auto split: list.splits)

lemma text_lines_newline:
  "text_lines (a @ CHR ''\<newline>'' # b) = text_lines a @ text_lines b"
proof (induction a)
  case Nil
  then show ?case by simp
next
  case (Cons c a)
  obtain l ls where "text_lines a = l # ls"
    using text_lines_nonempty [of a] by (cases "text_lines a") auto
  with Cons show ?case by simp
qed

lemma text_lines_single: "newline_free l \<Longrightarrow> text_lines l = [l]"
  by (induction l) (auto simp: newline_free_def)

lemma text_lines_unlines:
  "\<forall>l \<in> set ls. newline_free l \<Longrightarrow> text_lines (unlines ls @ rest) = ls @ text_lines rest"
proof (induction ls)
  case Nil
  then show ?case by (simp add: unlines_def)
next
  case (Cons l ls)
  have "text_lines (unlines (l # ls) @ rest) = text_lines (l @ CHR ''\<newline>'' # (unlines ls @ rest))"
    by (simp add: unlines_def)
  also have "\<dots> = text_lines l @ text_lines (unlines ls @ rest)"
    by (rule text_lines_newline)
  finally show ?case using Cons by (simp add: text_lines_single)
qed

lemma unlines_append: "unlines (xs @ ys) = unlines xs @ unlines ys"
  by (simp add: unlines_def)

lemma unlines_concat: "unlines (concat xss) = concat (map unlines xss)"
  by (induction xss) (simp_all add: unlines_append, simp add: unlines_def)

lemma join_lines_unlines: "ls \<noteq> [] \<Longrightarrow> join_lines ls @ ''\<newline>'' = unlines ls"
proof (induction ls)
  case Nil
  then show ?case by simp
next
  case (Cons l ls)
  show ?case
  proof (cases ls)
    case Nil
    then show ?thesis by (simp add: join_lines_def unlines_def)
  next
    case (Cons l' ls')
    with Cons.IH have "join_lines ls @ ''\<newline>'' = unlines ls" by simp
    then show ?thesis
      using Cons by (simp add: join_lines_def unlines_def)
  qed
qed

lemma header_patterns_append:
  "header_patterns (xs @ ys) = header_patterns xs @ header_patterns ys"
  by (induction xs) (auto split: option.splits)

lemma header_patterns_none:
  "\<forall>l \<in> set ls. exten_pattern l = None \<Longrightarrow> header_patterns ls = []"
  by (induction ls) auto

lemma takeWhile_stop:
  "\<forall>x \<in> set zs. P x \<Longrightarrow> \<not> P m \<Longrightarrow> takeWhile P (zs @ m # ws) = zs"
  by (induction zs) auto

lemma from_trunk_lines_split:
  assumes "text_lines text = xs @ [''[from-trunk]''] @ ys" and "''[from-trunk]'' \<notin> set ys"
  shows "from_trunk_lines text = ys"
proof -
  have "\<forall>x \<in> set (rev ys). x \<noteq> ''[from-trunk]''"
    using assms(2) by (metis set_rev)
  then have "takeWhile (\<lambda>l. l \<noteq> ''[from-trunk]'') (rev ys @ ''[from-trunk]'' # rev xs) = rev ys"
    by (rule takeWhile_stop) simp
  then show ?thesis by (simp add: from_trunk_lines_def assms(1))
qed

lemma digit_char_not_newline: "digit_char d \<noteq> CHR ''\<newline>''"
  by (simp add: digit_char_def)

lemma str_nat_newline_free: "newline_free (str_nat n)"
proof (induction n rule: str_nat.induct)
  case (1 n)
  then show ?case
    by (subst str_nat.simps)
       (auto simp: newline_free_def digit_char_not_newline digit_char_not_newline [THEN not_sym])
qed

lemma str_int_newline_free: "newline_free (str_int i)"
  using str_nat_newline_free by (simp add: str_int_def newline_free_def)

lemma newline_free_append [simp]: "newline_free (a @ b) \<longleftrightarrow> newline_free a \<and> newline_free b"
  by (auto simp: newline_free_def)

lemma newline_free_Cons [simp]:
  "newline_free (c # s) \<longleftrightarrow> c \<noteq> CHR ''\<newline>'' \<and> newline_free s"
  by (auto simp: newline_free_def)

lemma newline_free_Nil [simp]: "newline_free []"
  by (simp add: newline_free_def)

lemma forward_map_step:
  "forward_of (dict_set (if dict_get m e = None then dict_set m e [] else m) e
                 (dict_set (dict_get_default (if dict_get m e = None then dict_set m e [] else m) e []) t x))
     e' t' =
   (if e' = e \<and> t' = t then Some x else forward_of m e' t')"
  by (auto simp: forward_of_def dict_get_def dict_get_default_def map_of_dict_set split: option.splits)

lemma forward_map_loop_member:
  "forward_of (build_forward_map_loop fs m) e t = Some f \<Longrightarrow> f \<in> set fs \<or> forward_of m e t = Some f"
proof (induction fs arbitrary: m)
  case Nil
  then show ?case by simp
next
  case (Cons x fs)
  let ?m' = "dict_set (if dict_get m (fwd_extension x) = None then dict_set m (fwd_extension x) [] else m)
               (fwd_extension x)
               (dict_set (dict_get_default (if dict_get m (fwd_extension x) = None
                                            then dict_set m (fwd_extension x) [] else m)
                            (fwd_extension x) []) (forward_type x) x)"
  have step: "build_forward_map_loop (x # fs) m = build_forward_map_loop fs ?m'"
    by (simp add: Let_def del: dict_set.simps)
  from Cons.prems have "f \<in> set fs \<or> forward_of ?m' e t = Some f"
    unfolding step by (rule Cons.IH)
  then show ?case
    unfolding forward_map_step by (auto split: if_splits)
qed

lemma forward_map_member:
  "forward_of (build_forward_map fs) e t = Some f \<Longrightarrow> f \<in> set fs"
  using forward_map_loop_member [of fs "[]" e t f]
  by (simp add: build_forward_map_def forward_of_def dict_get_def dict_get_default_def)

lemma dial_logic_lines_prefix:
  "l \<in> set (dial_logic_lines extension fwd_map ring_time early_answer) \<Longrightarrow>
     \<exists>t. l = '' same => n'' @ t"
  by (cases "forward_of fwd_map extension ''unconditional''";
      cases "forward_of fwd_map extension ''no_answer''"; cases "forward_of fwd_map extension ''busy''";
      cases early_answer)
     (auto simp: dial_logic_lines_def forward_of_def)

lemma dial_logic_lines_newline_free:
  assumes "newline_free extension"
      and "\<And>t f. forward_of fwd_map extension t = Some f \<Longrightarrow> newline_free (destination f)"
      and "l \<in> set (dial_logic_lines extension fwd_map ring_time early_answer)"
  shows "newline_free l"
proof -
  note n = str_int_newline_free assms(1)
  show ?thesis
  proof (cases "forward_of fwd_map extension ''unconditional''")
    case (Some u)
    with assms(2) have "newline_free (destination u)" by simp
    with assms(3) Some n show ?thesis
      by (cases early_answer) (auto simp: dial_logic_lines_def forward_of_def)
  next
    case None
    show ?thesis
    proof (cases "forward_of fwd_map extension ''no_answer''")
      case na: None
      show ?thesis
      proof (cases "forward_of fwd_map extension ''busy''")
        case b: None
        with assms(3) None na n show ?thesis
          by (cases early_answer) (auto simp: dial_logic_lines_def forward_of_def)
      next
        case b: (Some cfb)
        with assms(2) have "newline_free (destination cfb)" by simp
        with assms(3) None na b n show ?thesis
          by (cases early_answer) (auto simp: dial_logic_lines_def forward_of_def)
      qed
    next
      case na: (Some cfna)
      with assms(2) have dna: "newline_free (destination cfna)" by simp
      show ?thesis
      proof (cases "forward_of fwd_map extension ''busy''")
        case b: None
        with assms(3) None na n dna show ?thesis
          by (cases early_answer) (auto simp: dial_logic_lines_def forward_of_def)
      next
        case b: (Some cfb)
        with assms(2) have "newline_free (destination cfb)" by simp
        with assms(3) None na b n dna show ?thesis
          by (cases early_answer) (auto simp: dial_logic_lines_def forward_of_def)
      qed
    qed
  qed
qed

lemma config_static_split:
  \<open>config_static @ rest =
     static_head @ CHR ''\<newline>'' # (''[from-trunk]'' @ CHR ''\<newline>'' #
       (''; Inbound DID routing - auto-generated'' @ CHR ''\<newline>'' # rest))\<close>
  by (simp add: config_static_def static_head_def)

lemma config_did_extract_lines:
  \<open>config_did_extract = unlines
     [[],
      ''; Extract DID from To header when Request-URI has no user part'',
      ''exten => s,1,NoOp(Inbound call with no DID in Request-URI)'',
      '' same => n,Set(TO_HDR=${PJSIP_HEADER(read,To)})'',
      '' same => n,Set(DID=${CUT(CUT(TO_HDR,@,1),:,2)})'',
      '' same => n,NoOp(Extracted DID: ${DID})'',
      '' same => n,GotoIf($[${LEN(${DID})} > 0]?from-trunk,${DID},1)'',
      '' same => n,NoOp(Could not extract DID from To header)'',
      '' same => n,Hangup()'',
      []]\<close>
  by (simp add: config_did_extract_def unlines_def)

lemma config_no_routes_lines:
  \<open>config_no_routes = unlines
     [[],
      ''; No inbound routes configured'',
      ''exten => _X.,1,NoOp(Unrouted inbound call to ${EXTEN})'',
      '' same => n,Hangup()'']\<close>
  by (simp add: config_no_routes_def unlines_def)

lemma config_catch_all_lines:
  \<open>config_catch_all = unlines
     [[],
      ''; Catch-all for unmatched inbound calls'',
      ''exten => _[+0-9].,1,NoOp(Unmatched inbound DID ${EXTEN})'',
      '' same => n,Hangup()'']\<close>
  by (simp add: config_catch_all_def unlines_def)

lemma inbound_block_unlines:
  "inbound_block fwd_map ring_timeout_map route =
     unlines (inbound_block_lines fwd_map ring_timeout_map route)"
proof -
  let ?ls = "dial_logic_lines (destination_extension route) fwd_map
       (dict_get_default ring_timeout_map (destination_extension route) 20) True"
  have "?ls \<noteq> []"
    using dial_logic_lines_first
      [of "destination_extension route" fwd_map
          "dict_get_default ring_timeout_map (destination_extension route) 20" True]
    by (elim exE conjE) simp
  then have "join_lines ?ls @ ''\<newline>'' = unlines ?ls"
    by (rule join_lines_unlines)
  then show ?thesis
    by (simp add: inbound_block_def inbound_block_lines_def generate_dial_logic_def Let_def
          unlines_append) (simp add: unlines_def)
qed

lemma takeWhile_until:
  "c \<notin> set s \<Longrightarrow> takeWhile (\<lambda>x. x \<noteq> c) (s @ c # rest) = s"
  by (induction s) auto

lemma inbound_block_lines_clean:
  assumes "wf_route route"
      and "\<And>t f. forward_of fwd_map (destination_extension route) t = Some f
             \<Longrightarrow> newline_free (destination f)"
  shows "\<forall>l \<in> set (inbound_block_lines fwd_map ring_timeout_map route).
           newline_free l \<and> l \<noteq> ''[from-trunk]''"
    and "header_patterns (inbound_block_lines fwd_map ring_timeout_map route) = [did route]"
proof -
  let ?ls = "dial_logic_lines (destination_extension route) fwd_map
       (dict_get_default ring_timeout_map (destination_extension route) 20) True"
  let ?hd = \<open>[[],
      ''; '' @ (if truthy (description route) then or_empty (description route) else did route),
      ''exten => '' @ did route @ '',1,NoOp(Inbound call to DID '' @ did route @ '')'',
      '' same => n,Set(CALLERID(name)=${CALLERID(name)})'']\<close>
  have split: "inbound_block_lines fwd_map ring_timeout_map route = ?hd @ ?ls"
    by (simp add: inbound_block_lines_def)
  from assms(1) have wf: "newline_free (did route)" "CHR '','' \<notin> set (did route)"
    "newline_free (destination_extension route)" "newline_free (or_empty (description route))"
    by (simp_all add: wf_route_def)
  have dial: "newline_free l \<and> l \<noteq> ''[from-trunk]'' \<and> exten_pattern l = None" if "l \<in> set ?ls" for l
  proof -
    from dial_logic_lines_prefix [OF that] obtain t where l: "l = '' same => n'' @ t"
      by (elim exE)
    have "newline_free l"
      using dial_logic_lines_newline_free [OF wf(3) assms(2) that] .
    moreover have "l \<noteq> ''[from-trunk]''" "exten_pattern l = None"
      unfolding l by (simp_all add: exten_pattern_def)
    ultimately show ?thesis by simp
  qed
  have none: "header_patterns ?ls = []"
  proof (rule header_patterns_none, rule ballI)
    fix l assume "l \<in> set ?ls"
    from dial [OF this] show "exten_pattern l = None" by simp
  qed
  have tw: "takeWhile (\<lambda>x. x \<noteq> CHR '','') (did route @ CHR '','' # rest) = did route" for rest
    using wf(2) by (rule takeWhile_until)
  have a: "\<forall>l \<in> set ?hd. newline_free l \<and> l \<noteq> ''[from-trunk]''"
    using wf by simp
  have b: "\<forall>l \<in> set ?ls. newline_free l \<and> l \<noteq> ''[from-trunk]''"
  proof (rule ballI)
    fix l assume "l \<in> set ?ls"
    from dial [OF this] show "newline_free l \<and> l \<noteq> ''[from-trunk]''" by simp
  qed
  show "\<forall>l \<in> set (inbound_block_lines fwd_map ring_timeout_map route).
           newline_free l \<and> l \<noteq> ''[from-trunk]''"
    unfolding split set_append ball_Un using a b by (rule conjI)
  have h: "header_patterns ?hd = [did route]"
    using tw by (simp add: exten_pattern_def)
  show "header_patterns (inbound_block_lines fwd_map ring_timeout_map route) = [did route]"
    unfolding split header_patterns_append none h by simp
qed

lemma inbound_lines_clean:
  assumes "\<forall>r \<in> set routes. wf_route r"
      and "\<And>e t f. forward_of fwd_map e t = Some f \<Longrightarrow> newline_free (destination f)"
  shows "(\<forall>l \<in> set (concat (map (inbound_block_lines fwd_map ring_timeout_map) routes)).
            newline_free l \<and> l \<noteq> ''[from-trunk]'') \<and>
         header_patterns (concat (map (inbound_block_lines fwd_map ring_timeout_map) routes)) =
           map did routes"
  using assms(1)
proof (induction routes)
  case Nil
  then show ?case by simp
next
  case (Cons r routes)
  then have wf: "wf_route r" and rest: "\<forall>r \<in> set routes. wf_route r"
    by simp_all
  note c = inbound_block_lines_clean [OF wf assms(2), where ring_timeout_map = ring_timeout_map]
  from Cons.IH [OF rest] c show ?case
    by (simp add: header_patterns_append ball_Un)
qed

lemma from_trunk_patterns_text:
  assumes "\<forall>r \<in> set routes. wf_route r"
      and "\<forall>f \<in> set (or_empty forwards). newline_free (destination f)"
  shows "\<exists>text. generate_extensions_config routes forwards mailboxes peers trunks = Inr text \<and>
           from_trunk_patterns text =
             ''s'' # (if routes \<noteq> [] then map did routes else [''_X.'']) @ [''_[+0-9].'']"
proof -
  let ?fm = "build_forward_map (or_empty forwards)"
  let ?rtm = "build_ring_timeout_map (or_empty mailboxes)"
  let ?marker = "''[from-trunk]''"
  let ?DE = \<open>[[],
      ''; Extract DID from To header when Request-URI has no user part'',
      ''exten => s,1,NoOp(Inbound call with no DID in Request-URI)'',
      '' same => n,Set(TO_HDR=${PJSIP_HEADER(read,To)})'',
      '' same => n,Set(DID=${CUT(CUT(TO_HDR,@,1),:,2)})'',
      '' same => n,NoOp(Extracted DID: ${DID})'',
      '' same => n,GotoIf($[${LEN(${DID})} > 0]?from-trunk,${DID},1)'',
      '' same => n,NoOp(Could not extract DID from To header)'',
      '' same => n,Hangup()'',
      []]\<close>
  let ?NR = \<open>[[],
      ''; No inbound routes configured'',
      ''exten => _X.,1,NoOp(Unrouted inbound call to ${EXTEN})'',
      '' same => n,Hangup()'']\<close>
  let ?CA = \<open>[[],
      ''; Catch-all for unmatched inbound calls'',
      ''exten => _[+0-9].,1,NoOp(Unmatched inbound DID ${EXTEN})'',
      '' same => n,Hangup()'']\<close>
  let ?SL = "if routes \<noteq> [] then concat (map (inbound_block_lines ?fm ?rtm) routes) else ?NR"
  let ?T = "?DE @ ?SL @ ?CA"
  let ?Y = "[''; Inbound DID routing - auto-generated''] @ ?T @ [[]]"
  obtain om where om: "build_outbound_map routes peers = Inr om"
    using build_outbound_map_total [of routes peers] by (elim exE conjE)
  let ?P = "internal_context @ override_section ?fm ?rtm @
            outbound_section om (build_trunk_map (or_empty trunks) [])"
  let ?text = "?P @ config_static @ config_did_extract @ inbound_section ?fm ?rtm routes @ config_catch_all"
  have gen: "generate_extensions_config routes forwards mailboxes peers trunks = Inr ?text"
    using generate_extensions_config_text [OF om] by simp
  have fw: "newline_free (destination f)" if "forward_of ?fm e t = Some f" for e t f
    using forward_map_member [OF that] assms(2) by simp
  note routes_clean = inbound_lines_clean [OF assms(1) fw, where ring_timeout_map = ?rtm]
  have blk: "inbound_block ?fm ?rtm = unlines \<circ> inbound_block_lines ?fm ?rtm"
    by (rule ext) (simp add: inbound_block_unlines)
  have sec: "inbound_section ?fm ?rtm routes = unlines ?SL"
    by (simp add: inbound_section_def unlines_concat blk config_no_routes_lines
          del: concat.simps)
  have SL_clean: "\<forall>l \<in> set ?SL. newline_free l \<and> l \<noteq> ?marker"
    using routes_clean by (cases "routes = []") simp_all
  have SL_pat: "header_patterns ?SL = (if routes \<noteq> [] then map did routes else [''_X.''])"
    using routes_clean by (cases "routes = []") (simp_all add: exten_pattern_def)
  have DE_clean: "\<forall>l \<in> set ?DE. newline_free l \<and> l \<noteq> ?marker" by simp
  have CA_clean: "\<forall>l \<in> set ?CA. newline_free l \<and> l \<noteq> ?marker" by simp
  have T_clean: "\<forall>l \<in> set ?T. newline_free l \<and> l \<noteq> ?marker"
    unfolding set_append ball_Un using DE_clean SL_clean CA_clean by (intro conjI)
  then have T_nf: "\<forall>l \<in> set ?T. newline_free l" by simp
  have tail: "config_did_extract @ inbound_section ?fm ?rtm routes @ config_catch_all = unlines ?T"
    unfolding sec config_did_extract_lines config_catch_all_lines unlines_append ..
  have "?text = (?P @ static_head) @ CHR ''\<newline>'' # (?marker @ CHR ''\<newline>'' #
       (''; Inbound DID routing - auto-generated'' @ CHR ''\<newline>'' # (unlines ?T @ [])))"
    using config_static_split [of "unlines ?T"] unfolding tail [symmetric] by simp
  then have "text_lines ?text =
      text_lines (?P @ static_head) @ text_lines ?marker @
      text_lines ''; Inbound DID routing - auto-generated'' @ text_lines (unlines ?T @ [])"
    by (simp only: text_lines_newline)
  also have "text_lines ?marker = [?marker]"
    by (rule text_lines_single) simp
  also have "text_lines ''; Inbound DID routing - auto-generated'' =
      [''; Inbound DID routing - auto-generated'']"
    by (rule text_lines_single) simp
  also have "text_lines (unlines ?T @ []) = ?T @ text_lines []"
    using T_nf by (rule text_lines_unlines)
  finally have lines: "text_lines ?text = text_lines (?P @ static_head) @ [?marker] @ ?Y"
    by simp
  have "?marker \<notin> set ?Y"
    using T_clean by auto
  with lines have ft: "from_trunk_lines ?text = ?Y"
    by (rule from_trunk_lines_split)
  have "header_patterns ?Y =
      header_patterns [''; Inbound DID routing - auto-generated''] @
      header_patterns ?DE @ header_patterns ?SL @ header_patterns ?CA @ header_patterns [[]]"
    by (simp only: header_patterns_append append_assoc)
  also have "header_patterns [''; Inbound DID routing - auto-generated''] = []"
    by (simp add: exten_pattern_def)
  also have "header_patterns ?DE = [''s'']" by (simp add: exten_pattern_def)
  also have "header_patterns ?CA = [''_[+0-9].'']" by (simp add: exten_pattern_def)
  also have "header_patterns [[]] = []" by (simp add: exten_pattern_def)
  finally have "from_trunk_patterns ?text =
      ''s'' # (if routes \<noteq> [] then map did routes else [''_X.'']) @ [''_[+0-9].'']"
    unfolding from_trunk_patterns_def ft SL_pat by simp
  with gen show ?thesis by (intro exI conjI)
qed

lemma route_patterns_of:
  assumes "from_trunk_patterns text =
             ''s'' # (if routes \<noteq> [] then map did routes else [''_X.'']) @ [''_[+0-9].'']"
  shows "route_patterns text = (if routes \<noteq> [] then map did routes else [''_X.''])"
    and "last (from_trunk_patterns text) = ''_[+0-9].''"
  by (simp_all add: route_patterns_def assms)

lemma wf_route_dup: "\<forall>r \<in> set [route_dup_a, route_dup_b]. wf_route r"
  by (simp add: wf_route_def route_dup_a_def route_dup_b_def or_empty_def)

section \<open>The text of a block and its lines\<close>

lemma text_lines_join_lines:
  assumes "ls \<noteq> []" and "\<forall>l \<in> set ls. newline_free l"
  shows "text_lines (join_lines ls) = ls"
proof -
  have "text_lines (join_lines ls @ CHR ''\<newline>'' # []) = text_lines (join_lines ls) @ text_lines []"
    by (rule text_lines_newline)
  moreover have "join_lines ls @ CHR ''\<newline>'' # [] = unlines ls @ []"
    using join_lines_unlines [OF assms(1)] by simp
  moreover have "text_lines (unlines ls @ []) = ls @ text_lines []"
    using assms(2) by (rule text_lines_unlines)
  ultimately show ?thesis by simp
qed

lemma generate_dial_logic_text_lines:
  assumes "newline_free extension"
      and "\<And>t f. forward_of fwd_map extension t = Some f \<Longrightarrow> newline_free (destination f)"
  shows "text_lines (generate_dial_logic extension fwd_map ring_time early_answer) =
           dial_logic_lines extension fwd_map ring_time early_answer"
proof -
  have ne: "dial_logic_lines extension fwd_map ring_time early_answer \<noteq> []"
    using dial_logic_lines_first [of extension fwd_map ring_time early_answer]
    by (elim exE conjE) simp
  have nf: "\<forall>l \<in> set (dial_logic_lines extension fwd_map ring_time early_answer). newline_free l"
    using dial_logic_lines_newline_free [OF assms] by (intro ballI)
  show ?thesis
    unfolding generate_dial_logic_def using ne nf by (rule text_lines_join_lines)
qed

lemma cfu_text_lines:
  assumes "forward_of fwd_map extension ''unconditional'' = Some cfu"
      and "newline_free (destination cfu)"
  shows "text_lines (generate_dial_logic extension fwd_map ring_time early_answer) =
           dial_logic_lines extension fwd_map ring_time early_answer"
proof -
  have ne: "dial_logic_lines extension fwd_map ring_time early_answer \<noteq> []"
    using dial_logic_lines_first [of extension fwd_map ring_time early_answer]
    by (elim exE conjE) simp
  have nf: "\<forall>l \<in> set (dial_logic_lines extension fwd_map ring_time early_answer). newline_free l"
    using assms str_int_newline_free [of ring_time]
    by (cases early_answer) (simp_all add: dial_logic_lines_def forward_of_def)
  show ?thesis
    unfolding generate_dial_logic_def using ne nf by (rule text_lines_join_lines)
qed

lemma default_text_lines:
  assumes "forward_of fwd_map extension ''unconditional'' = None"
      and "forward_of fwd_map extension ''busy'' = None"
      and "forward_of fwd_map extension ''no_answer'' = None"
      and "newline_free extension"
  shows "text_lines (generate_dial_logic extension fwd_map ring_time early_answer) =
           dial_logic_lines extension fwd_map ring_time early_answer"
proof -
  have ne: "dial_logic_lines extension fwd_map ring_time early_answer \<noteq> []"
    using dial_logic_lines_first [of extension fwd_map ring_time early_answer]
    by (elim exE conjE) simp
  have nf: "\<forall>l \<in> set (dial_logic_lines extension fwd_map ring_time early_answer). newline_free l"
    using assms str_int_newline_free [of ring_time]
    by (cases early_answer) (simp_all add: dial_logic_lines_def forward_of_def)
  show ?thesis
    unfolding generate_dial_logic_def using ne nf by (rule text_lines_join_lines)
qed

section \<open>Lines of the override section\<close>

lemma override_block_unlines:
  "override_block fwd_map ring_timeout_map ext =
     unlines (override_block_lines fwd_map ring_timeout_map ext)"
proof -
  let ?ls = "dial_logic_lines ext fwd_map (dict_get_default ring_timeout_map ext 20) False"
  have "?ls \<noteq> []"
    using dial_logic_lines_first [of ext fwd_map "dict_get_default ring_timeout_map ext 20" False]
    by (elim exE conjE) simp
  then have "join_lines ?ls @ ''\<newline>'' = unlines ?ls"
    by (rule join_lines_unlines)
  then have "join_lines ?ls @ ''\<newline>\<newline>'' = unlines (?ls @ [[]])"
    by (simp add: unlines_append) (simp add: unlines_def)
  then show ?thesis
    by (simp add: override_block_def override_block_lines_def generate_dial_logic_def Let_def
          unlines_append) (simp add: unlines_def)
qed

lemma override_block_lines_clean:
  assumes "pattern_safe ext"
      and "\<And>t f. forward_of fwd_map ext t = Some f \<Longrightarrow> newline_free (destination f)"
  shows "\<forall>l \<in> set (override_block_lines fwd_map ring_timeout_map ext). newline_free l"
    and "header_patterns (override_block_lines fwd_map ring_timeout_map ext) = [ext]"
proof -
  let ?ls = "dial_logic_lines ext fwd_map (dict_get_default ring_timeout_map ext 20) False"
  let ?hd = \<open>[''; Extension '' @ ext @ '' - custom rules'',
      ''exten => '' @ ext @ '',1,NoOp(Call to '' @ ext @ '' with forwarding)'',
      '' same => n,Set(CALLERID(name)=${CALLERID(name)})'']\<close>
  have split: "override_block_lines fwd_map ring_timeout_map ext = ?hd @ ?ls @ [[]]"
    by (simp add: override_block_lines_def)
  from assms(1) have wf: "newline_free ext" "CHR '','' \<notin> set ext"
    by (simp_all add: pattern_safe_def)
  have dial: "newline_free l \<and> exten_pattern l = None" if "l \<in> set ?ls" for l
  proof -
    from dial_logic_lines_prefix [OF that] obtain t where l: "l = '' same => n'' @ t"
      by (elim exE)
    have "newline_free l"
      using dial_logic_lines_newline_free [OF wf(1) assms(2) that] .
    moreover have "exten_pattern l = None"
      unfolding l by (simp add: exten_pattern_def)
    ultimately show ?thesis by simp
  qed
  have none: "header_patterns ?ls = []"
  proof (rule header_patterns_none, rule ballI)
    fix l assume "l \<in> set ?ls"
    from dial [OF this] show "exten_pattern l = None" by simp
  qed
  have tw: "takeWhile (\<lambda>x. x \<noteq> CHR '','') (ext @ CHR '','' # rest) = ext" for rest
    using wf(2) by (rule takeWhile_until)
  have a: "\<forall>l \<in> set ?hd. newline_free l"
    using wf by simp
  have b: "\<forall>l \<in> set ?ls. newline_free l"
  proof (rule ballI)
    fix l assume "l \<in> set ?ls"
    from dial [OF this] show "newline_free l" by simp
  qed
  have c: "\<forall>l \<in> set [[]]. newline_free l" by simp
  show "\<forall>l \<in> set (override_block_lines fwd_map ring_timeout_map ext). newline_free l"
    unfolding split set_append ball_Un using a b c by (intro conjI)
  have h: "header_patterns ?hd = [ext]"
    using tw by (simp add: exten_pattern_def)
  have e: "header_patterns [[]] = []"
    by (simp add: exten_pattern_def)
  show "header_patterns (override_block_lines fwd_map ring_timeout_map ext) = [ext]"
    unfolding split header_patterns_append none h e by simp
qed

lemma override_lines_clean:
  assumes "\<forall>e \<in> set exts. pattern_safe e"
      and "\<And>e t f. forward_of fwd_map e t = Some f \<Longrightarrow> newline_free (destination f)"
  shows "(\<forall>l \<in> set (concat (map (override_block_lines fwd_map ring_timeout_map) exts)).
            newline_free l) \<and>
         header_patterns (concat (map (override_block_lines fwd_map ring_timeout_map) exts)) = exts"
  using assms(1)
proof (induction exts)
  case Nil
  then show ?case by simp
next
  case (Cons e exts)
  then have wf: "pattern_safe e" and rest: "\<forall>e \<in> set exts. pattern_safe e"
    by simp_all
  note c = override_block_lines_clean [OF wf assms(2), where ring_timeout_map = ring_timeout_map]
  from Cons.IH [OF rest] c show ?case
    by (simp add: header_patterns_append ball_Un)
qed

lemma ring_timeout_loop_keys:
  "fst ` set (build_ring_timeout_loop mbs m) = mb_extension ` set mbs \<union> fst ` set m"
  by (induction mbs arbitrary: m) (auto simp: keys_dict_set simp del: dict_set.simps)

lemma override_extensions_subset:
  "override_extensions (build_forward_map forwards) (build_ring_timeout_map mailboxes) \<subseteq>
     fwd_extension ` set forwards \<union> mb_extension ` set mailboxes"
proof -
  have "set (map fst (filter (\<lambda>(ext, timeout). timeout \<noteq> 20) (build_ring_timeout_map mailboxes)))
      \<subseteq> fst ` set (build_ring_timeout_map mailboxes)"
    by auto
  also have "\<dots> = mb_extension ` set mailboxes"
    by (simp add: build_ring_timeout_map_def ring_timeout_loop_keys)
  finally show ?thesis
    unfolding override_extensions_def forward_map_keys by blast
qed

lemma override_section_patterns:
  assumes "\<forall>f \<in> set forwards. pattern_safe (fwd_extension f) \<and> newline_free (destination f)"
      and "\<forall>mb \<in> set mailboxes. pattern_safe (mb_extension mb)"
  shows "header_patterns (text_lines (override_section (build_forward_map forwards)
                                         (build_ring_timeout_map mailboxes))) =
           sorted_list_of_set (override_extensions (build_forward_map forwards)
                                 (build_ring_timeout_map mailboxes))"
proof -
  let ?fm = "build_forward_map forwards"
  let ?rtm = "build_ring_timeout_map mailboxes"
  let ?exts = "sorted_list_of_set (override_extensions ?fm ?rtm)"
  have "set ?exts \<subseteq> fwd_extension ` set forwards \<union> mb_extension ` set mailboxes"
    using override_extensions_subset [of forwards mailboxes]
    by (simp add: finite_override_extensions)
  with assms have safe: "\<forall>e \<in> set ?exts. pattern_safe e"
    by auto
  have fw: "newline_free (destination f)" if "forward_of ?fm e t = Some f" for e t f
    using forward_map_member [OF that] assms(1) by simp
  note clean = override_lines_clean [OF safe fw, where ring_timeout_map = ?rtm]
  have blk: "override_block ?fm ?rtm = unlines \<circ> override_block_lines ?fm ?rtm"
    by (rule ext) (simp add: override_block_unlines)
  have "override_section ?fm ?rtm = unlines (concat (map (override_block_lines ?fm ?rtm) ?exts)) @ []"
    by (simp add: override_section_def unlines_concat blk del: concat.simps)
  moreover have "text_lines (unlines (concat (map (override_block_lines ?fm ?rtm) ?exts)) @ []) =
      concat (map (override_block_lines ?fm ?rtm) ?exts) @ text_lines []"
    using clean by (intro text_lines_unlines) simp
  ultimately have "text_lines (override_section ?fm ?rtm) =
      concat (map (override_block_lines ?fm ?rtm) ?exts) @ [[]]"
    by simp
  then show ?thesis
    using clean by (simp add: header_patterns_append exten_pattern_def)
qed

lemma sorted_distinct_unique:
  fixes xs ys :: "string list"
  assumes "sorted xs" "distinct xs" "sorted ys" "distinct ys" "set xs = set ys"
  shows "xs = ys"
  using assms by (metis sorted_distinct_set_unique)


section \<open>Dial instructions of a block\<close>

lemma dial_lines_of_block:
  assumes "forward_of fwd_map extension ''unconditional'' = None"
  shows \<open>filter (\<lambda>l. line_app l = Some ''Dial'')
             (dial_logic_lines extension fwd_map ring_time early_answer) =
           ['' same => n,Dial(PJSIP/'' @ extension @ '','' @
              str_int (case forward_of fwd_map extension ''no_answer'' of
                         Some cfna \<Rightarrow> fwd_ring_time cfna | None \<Rightarrow> ring_time) @ '',tTr)''] @
           (case forward_of fwd_map extension ''no_answer'' of
              Some cfna \<Rightarrow> ['' same => n,Dial(PJSIP/'' @ destination cfna @ ''@trunk,30,tT)'']
            | None \<Rightarrow> []) @
           (case forward_of fwd_map extension ''busy'' of
              Some cfb \<Rightarrow> ['' same => n,Dial(PJSIP/'' @ destination cfb @ ''@trunk,30,tT)'']
            | None \<Rightarrow> [])\<close>
  using assms
  by (cases "forward_of fwd_map extension ''no_answer''"; cases "forward_of fwd_map extension ''busy''")
     (simp_all add: dial_logic_lines_def forward_of_def line_simps)

section \<open>Lines of the from-trunk context\<close>

lemma from_trunk_lines_text:
  assumes "\<forall>r \<in> set routes. wf_route r"
      and "\<forall>f \<in> set (or_empty forwards). newline_free (destination f)"
  shows "\<exists>text. generate_extensions_config routes forwards mailboxes peers trunks = Inr text \<and>
           from_trunk_lines text =
             from_trunk_head_lines @
             (if routes \<noteq> []
              then concat (map (inbound_block_lines (build_forward_map (or_empty forwards))
                                  (build_ring_timeout_map (or_empty mailboxes))) routes)
              else no_routes_lines) @
             catch_all_lines @ [[]]"
proof -
  let ?fm = "build_forward_map (or_empty forwards)"
  let ?rtm = "build_ring_timeout_map (or_empty mailboxes)"
  let ?marker = "''[from-trunk]''"
  let ?DE = \<open>[[],
      ''; Extract DID from To header when Request-URI has no user part'',
      ''exten => s,1,NoOp(Inbound call with no DID in Request-URI)'',
      '' same => n,Set(TO_HDR=${PJSIP_HEADER(read,To)})'',
      '' same => n,Set(DID=${CUT(CUT(TO_HDR,@,1),:,2)})'',
      '' same => n,NoOp(Extracted DID: ${DID})'',
      '' same => n,GotoIf($[${LEN(${DID})} > 0]?from-trunk,${DID},1)'',
      '' same => n,NoOp(Could not extract DID from To header)'',
      '' same => n,Hangup()'',
      []]\<close>
  let ?NR = \<open>[[],
      ''; No inbound routes configured'',
      ''exten => _X.,1,NoOp(Unrouted inbound call to ${EXTEN})'',
      '' same => n,Hangup()'']\<close>
  let ?CA = \<open>[[],
      ''; Catch-all for unmatched inbound calls'',
      ''exten => _[+0-9].,1,NoOp(Unmatched inbound DID ${EXTEN})'',
      '' same => n,Hangup()'']\<close>
  let ?SL = "if routes \<noteq> [] then concat (map (inbound_block_lines ?fm ?rtm) routes) else ?NR"
  let ?T = "?DE @ ?SL @ ?CA"
  let ?Y = "[''; Inbound DID routing - auto-generated''] @ ?T @ [[]]"
  obtain om where om: "build_outbound_map routes peers = Inr om"
    using build_outbound_map_total [of routes peers] by (elim exE conjE)
  let ?P = "internal_context @ override_section ?fm ?rtm @
            outbound_section om (build_trunk_map (or_empty trunks) [])"
  let ?text = "?P @ config_static @ config_did_extract @ inbound_section ?fm ?rtm routes @ config_catch_all"
  have gen: "generate_extensions_config routes forwards mailboxes peers trunks = Inr ?text"
    using generate_extensions_config_text [OF om] by simp
  have fw: "newline_free (destination f)" if "forward_of ?fm e t = Some f" for e t f
    using forward_map_member [OF that] assms(2) by simp
  note routes_clean = inbound_lines_clean [OF assms(1) fw, where ring_timeout_map = ?rtm]
  have blk: "inbound_block ?fm ?rtm = unlines \<circ> inbound_block_lines ?fm ?rtm"
    by (rule ext) (simp add: inbound_block_unlines)
  have sec: "inbound_section ?fm ?rtm routes = unlines ?SL"
    by (simp add: inbound_section_def unlines_concat blk config_no_routes_lines
          del: concat.simps)
  have SL_clean: "\<forall>l \<in> set ?SL. newline_free l \<and> l \<noteq> ?marker"
    using routes_clean by (cases "routes = []") simp_all
  have SL_pat: "header_patterns ?SL = (if routes \<noteq> [] then map did routes else [''_X.''])"
    using routes_clean by (cases "routes = []") (simp_all add: exten_pattern_def)
  have DE_clean: "\<forall>l \<in> set ?DE. newline_free l \<and> l \<noteq> ?marker" by simp
  have CA_clean: "\<forall>l \<in> set ?CA. newline_free l \<and> l \<noteq> ?marker" by simp
  have T_clean: "\<forall>l \<in> set ?T. newline_free l \<and> l \<noteq> ?marker"
    unfolding set_append ball_Un using DE_clean SL_clean CA_clean by (intro conjI)
  then have T_nf: "\<forall>l \<in> set ?T. newline_free l" by simp
  have tail: "config_did_extract @ inbound_section ?fm ?rtm routes @ config_catch_all = unlines ?T"
    unfolding sec config_did_extract_lines config_catch_all_lines unlines_append ..
  have "?text = (?P @ static_head) @ CHR ''\<newline>'' # (?marker @ CHR ''\<newline>'' #
       (''; Inbound DID routing - auto-generated'' @ CHR ''\<newline>'' # (unlines ?T @ [])))"
    using config_static_split [of "unlines ?T"] unfolding tail [symmetric] by simp
  then have "text_lines ?text =
      text_lines (?P @ static_head) @ text_lines ?marker @
      text_lines ''; Inbound DID routing - auto-generated'' @ text_lines (unlines ?T @ [])"
    by (simp only: text_lines_newline)
  also have "text_lines ?marker = [?marker]"
    by (rule text_lines_single) simp
  also have "text_lines ''; Inbound DID routing - auto-generated'' =
      [''; Inbound DID routing - auto-generated'']"
    by (rule text_lines_single) simp
  also have "text_lines (unlines ?T @ []) = ?T @ text_lines []"
    using T_nf by (rule text_lines_unlines)
  finally have lines: "text_lines ?text = text_lines (?P @ static_head) @ [?marker] @ ?Y"
    by simp
  have "?marker \<notin> set ?Y"
    using T_clean by auto
  with lines have ft: "from_trunk_lines ?text = ?Y"
    by (rule from_trunk_lines_split)
  have "?Y = from_trunk_head_lines @ ?SL @ catch_all_lines @ [[]]"
    by (simp add: from_trunk_head_lines_def catch_all_lines_def no_routes_lines_def)
  with ft have "from_trunk_lines ?text = from_trunk_head_lines @ ?SL @ catch_all_lines @ [[]]"
    by simp
  then have "from_trunk_lines ?text =
             from_trunk_head_lines @
             (if routes \<noteq> []
              then concat (map (inbound_block_lines ?fm ?rtm) routes)
              else no_routes_lines) @
             catch_all_lines @ [[]]"
    by (simp add: no_routes_lines_def)
  with gen show ?thesis by (intro exI conjI)
qed

section \<open>Answer instructions in the text\<close>

lemma answer_lines_true:
  "filter (\<lambda>l. line_app l = Some ''Answer'') (dial_logic_lines extension fwd_map ring_time True) =
     ['' same => n,Answer()'']"
  by (cases "forward_of fwd_map extension ''unconditional''";
      cases "forward_of fwd_map extension ''no_answer''"; cases "forward_of fwd_map extension ''busy''")
     (simp_all add: dial_logic_lines_def forward_of_def line_simps)

lemma answer_lines_false:
  "\<forall>l \<in> set (dial_logic_lines extension fwd_map ring_time False). line_app l \<noteq> Some ''Answer''"
proof (rule ballI)
  fix l assume "l \<in> set (dial_logic_lines extension fwd_map ring_time False)"
  then have "line_app l \<in> set (map line_app (dial_logic_lines extension fwd_map ring_time False))"
    by simp
  then show "line_app l \<noteq> Some ''Answer''"
    using answer_iff [of extension fwd_map ring_time False] by metis
qed

lemma answer_lines_block:
  "filter (\<lambda>l. line_app l = Some ''Answer'') (inbound_block_lines fwd_map ring_timeout_map route) =
     ['' same => n,Answer()'']"
  by (simp add: inbound_block_lines_def answer_lines_true) (simp add: line_simps)

lemma answer_lines_routes:
  "filter (\<lambda>l. line_app l = Some ''Answer'')
     (concat (map (inbound_block_lines fwd_map ring_timeout_map) routes)) =
   replicate (length routes) '' same => n,Answer()''"
  by (induction routes) (simp_all add: answer_lines_block)

lemma answer_lines_static:
  "filter (\<lambda>l. line_app l = Some ''Answer'') from_trunk_head_lines = []"
  "filter (\<lambda>l. line_app l = Some ''Answer'') no_routes_lines = []"
  "filter (\<lambda>l. line_app l = Some ''Answer'') catch_all_lines = []"
  "filter (\<lambda>l. line_app l = Some ''Answer'') [[]] = []"
  by (simp_all add: from_trunk_head_lines_def no_routes_lines_def catch_all_lines_def line_simps)

lemma inbound_block_answer_first:
  \<open>\<exists>pre post.
     inbound_block_lines fwd_map ring_timeout_map route =
       [[],
        ''; '' @ (if truthy (description route) then or_empty (description route) else did route),
        ''exten => '' @ did route @ '',1,NoOp(Inbound call to DID '' @ did route @ '')'',
        '' same => n,Set(CALLERID(name)=${CALLERID(name)})''] @
       pre @ ['' same => n,Answer()'', '' same => n,Wait(0.5)''] @ post \<and>
     (\<forall>l \<in> set pre. \<not> device_state_probe l \<and> line_app l \<noteq> Some ''Dial'')\<close>
proof -
  from answer_first [of "destination_extension route" fwd_map
      "dict_get_default ring_timeout_map (destination_extension route) 20"]
  obtain pre post where
    d: "dial_logic_lines (destination_extension route) fwd_map
          (dict_get_default ring_timeout_map (destination_extension route) 20) True =
        pre @ ['' same => n,Answer()'', '' same => n,Wait(0.5)''] @ post"
    and p: "\<forall>l \<in> set pre. \<not> device_state_probe l \<and> line_app l \<noteq> Some ''Dial''"
    by (elim exE conjE) (rule that, assumption, assumption)
  show ?thesis
    unfolding inbound_block_lines_def d using p by (intro exI conjI) (rule refl)
qed

lemma config_header_lines:
  \<open>config_header = unlines
     [''; Auto-generated dialplan configuration'',
      ''; Generated by Asterisk PBX GUI'',
      [],
      ''[general]'',
      ''static=yes'',
      ''writeprotect=no'',
      ''clearglobalvars=no'',
      [],
      ''[globals]'',
      [],
      ''[internal]'',
      ''; Internal Extension Dialing (PJSIP)'',
      ''exten => _1XXX,1,NoOp(Internal Call from ${CALLERID(all)} to ${EXTEN})'',
      '' same => n,Set(CALLERID(name)=${CALLERID(name)})'']\<close>
  by (simp add: config_header_def unlines_def)

lemma join_lines_blank:
  "ls \<noteq> [] \<Longrightarrow> join_lines ls @ ''\<newline>\<newline>'' = unlines (ls @ [[]])"
proof -
  assume "ls \<noteq> []"
  then have "join_lines ls @ ''\<newline>'' = unlines ls"
    by (rule join_lines_unlines)
  then have "(join_lines ls @ ''\<newline>'') @ ''\<newline>'' = unlines ls @ ''\<newline>''"
    by simp
  then show ?thesis
    by (simp add: unlines_append) (simp add: unlines_def)
qed

lemma internal_context_lines:
  \<open>\<exists>ls. internal_context = unlines ls \<and>
     (\<forall>l \<in> set ls. newline_free l \<and> line_app l \<noteq> Some ''Answer'')\<close>
proof -
  let ?H = \<open>[''; Auto-generated dialplan configuration'',
      ''; Generated by Asterisk PBX GUI'',
      [],
      ''[general]'',
      ''static=yes'',
      ''writeprotect=no'',
      ''clearglobalvars=no'',
      [],
      ''[globals]'',
      [],
      ''[internal]'',
      ''; Internal Extension Dialing (PJSIP)'',
      ''exten => _1XXX,1,NoOp(Internal Call from ${CALLERID(all)} to ${EXTEN})'',
      '' same => n,Set(CALLERID(name)=${CALLERID(name)})'']\<close>
  let ?D = \<open>dial_logic_lines ''${EXTEN}'' [] 20 False\<close>
  have ne: "?D \<noteq> []"
    using dial_logic_lines_first [of \<open>''${EXTEN}''\<close> "[]" 20 False] by (elim exE conjE) simp
  have ic: "internal_context = unlines (?H @ ?D @ [[]])"
    unfolding internal_context_def generate_dial_logic_def config_header_lines
      join_lines_blank [OF ne] unlines_append ..
  have fw: "newline_free (destination f)" if \<open>forward_of [] ''${EXTEN}'' t = Some f\<close> for t f
    using that by (simp add: lookup_simps)
  have nfx: \<open>newline_free ''${EXTEN}''\<close> by simp
  have h: "\<forall>l \<in> set ?H. newline_free l \<and> line_app l \<noteq> Some ''Answer''"
    by (simp add: line_simps)
  have d: "\<forall>l \<in> set ?D. newline_free l \<and> line_app l \<noteq> Some ''Answer''"
  proof (rule ballI)
    fix l assume l: "l \<in> set ?D"
    have "newline_free l"
      using dial_logic_lines_newline_free [OF nfx fw l] .
    moreover have "line_app l \<noteq> Some ''Answer''"
      using answer_lines_false l by (rule bspec)
    ultimately show "newline_free l \<and> line_app l \<noteq> Some ''Answer''" ..
  qed
  have e: "\<forall>l \<in> set [[]]. newline_free l \<and> line_app l \<noteq> Some ''Answer''"
    by (simp add: line_simps)
  have "\<forall>l \<in> set (?H @ ?D @ [[]]). newline_free l \<and> line_app l \<noteq> Some ''Answer''"
    unfolding set_append ball_Un using h d e by (intro conjI)
  with ic show ?thesis by (intro exI conjI)
qed

lemma override_block_lines_no_answer:
  "\<forall>l \<in> set (override_block_lines fwd_map ring_timeout_map ext). line_app l \<noteq> Some ''Answer''"
proof -
  let ?ls = "dial_logic_lines ext fwd_map (dict_get_default ring_timeout_map ext 20) False"
  let ?hd = \<open>[''; Extension '' @ ext @ '' - custom rules'',
      ''exten => '' @ ext @ '',1,NoOp(Call to '' @ ext @ '' with forwarding)'',
      '' same => n,Set(CALLERID(name)=${CALLERID(name)})'']\<close>
  have split: "override_block_lines fwd_map ring_timeout_map ext = ?hd @ ?ls @ [[]]"
    by (simp add: override_block_lines_def)
  have a: "\<forall>l \<in> set ?hd. line_app l \<noteq> Some ''Answer''"
    by (simp add: line_simps)
  have b: "\<forall>l \<in> set ?ls. line_app l \<noteq> Some ''Answer''"
    by (rule answer_lines_false)
  have c: "\<forall>l \<in> set [[]]. line_app l \<noteq> Some ''Answer''"
    by (simp add: line_simps)
  show ?thesis
    unfolding split set_append ball_Un using a b c by (intro conjI)
qed

lemma override_lines_no_answer:
  "\<forall>l \<in> set (concat (map (override_block_lines fwd_map ring_timeout_map) exts)).
     line_app l \<noteq> Some ''Answer''"
  using override_block_lines_no_answer by (induction exts) (simp_all add: ball_Un)

lemma override_section_text_lines:
  assumes "\<forall>f \<in> set forwards. pattern_safe (fwd_extension f) \<and> newline_free (destination f)"
      and "\<forall>mb \<in> set mailboxes. pattern_safe (mb_extension mb)"
  shows "text_lines (override_section (build_forward_map forwards) (build_ring_timeout_map mailboxes)) =
           concat (map (override_block_lines (build_forward_map forwards)
                          (build_ring_timeout_map mailboxes))
                     (sorted_list_of_set (override_extensions (build_forward_map forwards)
                                            (build_ring_timeout_map mailboxes)))) @ [[]]"
proof -
  let ?fm = "build_forward_map forwards"
  let ?rtm = "build_ring_timeout_map mailboxes"
  let ?exts = "sorted_list_of_set (override_extensions ?fm ?rtm)"
  have "set ?exts \<subseteq> fwd_extension ` set forwards \<union> mb_extension ` set mailboxes"
    using override_extensions_subset [of forwards mailboxes]
    by (simp add: finite_override_extensions)
  with assms have safe: "\<forall>e \<in> set ?exts. pattern_safe e"
    by auto
  have fw: "newline_free (destination f)" if "forward_of ?fm e t = Some f" for e t f
    using forward_map_member [OF that] assms(1) by simp
  note clean = override_lines_clean [OF safe fw, where ring_timeout_map = ?rtm]
  have blk: "override_block ?fm ?rtm = unlines \<circ> override_block_lines ?fm ?rtm"
    by (rule ext) (simp add: override_block_unlines)
  have "override_section ?fm ?rtm = unlines (concat (map (override_block_lines ?fm ?rtm) ?exts)) @ []"
    by (simp add: override_section_def unlines_concat blk del: concat.simps)
  moreover have "text_lines (unlines (concat (map (override_block_lines ?fm ?rtm) ?exts)) @ []) =
      concat (map (override_block_lines ?fm ?rtm) ?exts) @ text_lines []"
    using clean by (intro text_lines_unlines) simp
  ultimately show ?thesis
    by simp
qed

lemma internal_override_no_answer:
  assumes "\<forall>f \<in> set forwards. pattern_safe (fwd_extension f) \<and> newline_free (destination f)"
      and "\<forall>mb \<in> set mailboxes. pattern_safe (mb_extension mb)"
  shows "\<forall>l \<in> set (text_lines (internal_context @
                     override_section (build_forward_map forwards) (build_ring_timeout_map mailboxes))).
           line_app l \<noteq> Some ''Answer''"
proof -
  let ?fm = "build_forward_map forwards"
  let ?rtm = "build_ring_timeout_map mailboxes"
  let ?exts = "sorted_list_of_set (override_extensions ?fm ?rtm)"
  let ?O = "concat (map (override_block_lines ?fm ?rtm) ?exts)"
  from internal_context_lines obtain ls where ic: "internal_context = unlines ls"
    and ls: "\<forall>l \<in> set ls. newline_free l \<and> line_app l \<noteq> Some ''Answer''"
    by (elim exE conjE) (rule that, assumption, assumption)
  from ls have nf: "\<forall>l \<in> set ls. newline_free l" by simp
  have "text_lines (internal_context @ override_section ?fm ?rtm) =
      ls @ text_lines (override_section ?fm ?rtm)"
    unfolding ic using nf by (rule text_lines_unlines)
  also have "\<dots> = ls @ ?O @ [[]]"
    using override_section_text_lines [OF assms] by simp
  finally have split: "text_lines (internal_context @ override_section ?fm ?rtm) = ls @ ?O @ [[]]" .
  have a: "\<forall>l \<in> set ls. line_app l \<noteq> Some ''Answer''"
    using ls by simp
  have b: "\<forall>l \<in> set ?O. line_app l \<noteq> Some ''Answer''"
    by (rule override_lines_no_answer)
  have c: "\<forall>l \<in> set [[]]. line_app l \<noteq> Some ''Answer''"
    by (simp add: line_simps)
  show ?thesis
    unfolding split set_append ball_Un using a b c by (intro conjI)
qed

lemma from_trunk_answer_lines:
  assumes "from_trunk_lines text =
             from_trunk_head_lines @
             (if routes \<noteq> []
              then concat (map (inbound_block_lines fwd_map ring_timeout_map) routes)
              else no_routes_lines) @
             catch_all_lines @ [[]]"
  shows "filter (\<lambda>l. line_app l = Some ''Answer'') (from_trunk_lines text) =
           replicate (length routes) '' same => n,Answer()''"
proof (cases "routes = []")
  case True
  then show ?thesis
    unfolding assms filter_append by (simp add: answer_lines_static) (simp add: line_simps)
next
  case False
  then show ?thesis
    unfolding assms filter_append by (simp add: answer_lines_static answer_lines_routes) (simp add: line_simps)
qed

lemma from_trunk_answer_first:
  assumes "from_trunk_lines text =
             from_trunk_head_lines @
             (if routes \<noteq> []
              then concat (map (inbound_block_lines fwd_map ring_timeout_map) routes)
              else no_routes_lines) @
             catch_all_lines @ [[]]"
      and "route \<in> set routes"
  shows \<open>\<exists>before pre post.
     from_trunk_lines text =
       before @
       [[],
        ''; '' @ (if truthy (description route) then or_empty (description route) else did route),
        ''exten => '' @ did route @ '',1,NoOp(Inbound call to DID '' @ did route @ '')'',
        '' same => n,Set(CALLERID(name)=${CALLERID(name)})''] @
       pre @ ['' same => n,Answer()'', '' same => n,Wait(0.5)''] @ post \<and>
     (\<forall>l \<in> set pre. \<not> device_state_probe l \<and> line_app l \<noteq> Some ''Dial'')\<close>
proof -
  let ?hd = \<open>[[],
        ''; '' @ (if truthy (description route) then or_empty (description route) else did route),
        ''exten => '' @ did route @ '',1,NoOp(Inbound call to DID '' @ did route @ '')'',
        '' same => n,Set(CALLERID(name)=${CALLERID(name)})'']\<close>
  let ?aw = \<open>['' same => n,Answer()'', '' same => n,Wait(0.5)'']\<close>
  from assms(2) obtain xs ys where r: "routes = xs @ route # ys"
    by (meson split_list)
  then have ne: "routes \<noteq> []" by simp
  from inbound_block_answer_first [of fwd_map ring_timeout_map route]
  obtain pre post where
    b: "inbound_block_lines fwd_map ring_timeout_map route = ?hd @ pre @ ?aw @ post"
    and p: "\<forall>l \<in> set pre. \<not> device_state_probe l \<and> line_app l \<noteq> Some ''Dial''"
    by (elim exE conjE) (rule that, assumption, assumption)
  have c: "concat (map (inbound_block_lines fwd_map ring_timeout_map) routes) =
      concat (map (inbound_block_lines fwd_map ring_timeout_map) xs) @
      (?hd @ pre @ ?aw @ post) @
      concat (map (inbound_block_lines fwd_map ring_timeout_map) ys)"
    unfolding r map_append list.map concat_append concat.simps b ..
  have "from_trunk_lines text =
      (from_trunk_head_lines @ concat (map (inbound_block_lines fwd_map ring_timeout_map) xs)) @
      ?hd @ pre @ ?aw @
      (post @ concat (map (inbound_block_lines fwd_map ring_timeout_map) ys) @ catch_all_lines @ [[]])"
    unfolding assms(1) if_P [OF ne] c append_assoc ..
  with p show ?thesis
    by (intro exI conjI)
qed

section \<open>Ring timeouts in the text\<close>

lemma str_nat_nonempty: "str_nat n \<noteq> []"
  by (subst str_nat.simps) simp

lemma str_nat_zero: "str_nat n = ''0'' \<longleftrightarrow> n = 0"
proof (cases "n < 10")
  case True
  then have "str_nat n = [digit_char n]"
    by (subst str_nat.simps) simp
  then show ?thesis
    by (simp add: digit_char_def)
next
  case False
  then have "str_nat n = str_nat (n div 10) @ [digit_char (n mod 10)]"
    by (subst str_nat.simps) simp
  then have "length (str_nat n) \<noteq> 1"
    using str_nat_nonempty [of "n div 10"] by simp
  then have "str_nat n \<noteq> ''0''"
    by auto
  with False show ?thesis by simp
qed

lemma str_int_zero: "str_int i = ''0'' \<longleftrightarrow> i = 0"
  by (simp add: str_int_def str_nat_zero)

lemma forward_of_absent:
  assumes "ext \<notin> fwd_extension ` set forwards"
  shows "forward_of (build_forward_map forwards) ext t = None"
proof -
  from assms have "ext \<notin> fst ` set (build_forward_map forwards)"
    using forward_map_keys [of forwards] by (simp add: dict_keys_def)
  then have "map_of (build_forward_map forwards) ext = None"
    by (simp add: map_of_eq_None_iff)
  then show ?thesis
    by (simp add: forward_of_def dict_get_default_def dict_get_def)
qed

lemma from_trunk_default_block:
  assumes "from_trunk_lines text =
             from_trunk_head_lines @
             (if routes \<noteq> []
              then concat (map (inbound_block_lines (build_forward_map forwards) ring_timeout_map) routes)
              else no_routes_lines) @
             catch_all_lines @ [[]]"
      and "route \<in> set routes"
      and "destination_extension route \<notin> fwd_extension ` set forwards"
  shows \<open>\<exists>before after.
     from_trunk_lines text =
       before @
       [[],
        ''; '' @ (if truthy (description route) then or_empty (description route) else did route),
        ''exten => '' @ did route @ '',1,NoOp(Inbound call to DID '' @ did route @ '')'',
        '' same => n,Set(CALLERID(name)=${CALLERID(name)})'',
        '' same => n,Answer()'',
        '' same => n,Wait(0.5)'',
        '' same => n,Set(DEVICE_STATE=${DEVICE_STATE(PJSIP/'' @ destination_extension route @ '')})'',
        '' same => n,GotoIf($["${DEVICE_STATE}" = "UNAVAILABLE"]?unavail)'',
        '' same => n,GotoIf($["${DEVICE_STATE}" = "INVALID"]?unavail)'',
        '' same => n,Dial(PJSIP/'' @ destination_extension route @ '','' @
           str_int (dict_get_default ring_timeout_map (destination_extension route) 20) @ '',tTr)'',
        '' same => n,GotoIf($["${DIALSTATUS}" = "BUSY"]?busy:unavail)'',
        '' same => n(unavail),VoiceMail('' @ destination_extension route @ ''@default,u)'',
        '' same => n,Hangup()'',
        '' same => n(busy),VoiceMail('' @ destination_extension route @ ''@default,b)'',
        '' same => n,Hangup()''] @
       after\<close>
proof -
  let ?fm = "build_forward_map forwards"
  let ?blk = \<open>[[],
        ''; '' @ (if truthy (description route) then or_empty (description route) else did route),
        ''exten => '' @ did route @ '',1,NoOp(Inbound call to DID '' @ did route @ '')'',
        '' same => n,Set(CALLERID(name)=${CALLERID(name)})'',
        '' same => n,Answer()'',
        '' same => n,Wait(0.5)'',
        '' same => n,Set(DEVICE_STATE=${DEVICE_STATE(PJSIP/'' @ destination_extension route @ '')})'',
        '' same => n,GotoIf($["${DEVICE_STATE}" = "UNAVAILABLE"]?unavail)'',
        '' same => n,GotoIf($["${DEVICE_STATE}" = "INVALID"]?unavail)'',
        '' same => n,Dial(PJSIP/'' @ destination_extension route @ '','' @
           str_int (dict_get_default ring_timeout_map (destination_extension route) 20) @ '',tTr)'',
        '' same => n,GotoIf($["${DIALSTATUS}" = "BUSY"]?busy:unavail)'',
        '' same => n(unavail),VoiceMail('' @ destination_extension route @ ''@default,u)'',
        '' same => n,Hangup()'',
        '' same => n(busy),VoiceMail('' @ destination_extension route @ ''@default,b)'',
        '' same => n,Hangup()'']\<close>
  from assms(2) obtain xs ys where r: "routes = xs @ route # ys"
    by (meson split_list)
  then have ne: "routes \<noteq> []" by simp
  note none = forward_of_absent [OF assms(3)]
  have b: "inbound_block_lines ?fm ring_timeout_map route = ?blk"
    using none [of "''unconditional''"] none [of "''busy''"] none [of "''no_answer''"]
    by (simp add: inbound_block_lines_def dial_logic_lines_def forward_of_def)
  have c: "concat (map (inbound_block_lines ?fm ring_timeout_map) routes) =
      concat (map (inbound_block_lines ?fm ring_timeout_map) xs) @ ?blk @
      concat (map (inbound_block_lines ?fm ring_timeout_map) ys)"
    unfolding r map_append list.map concat_append concat.simps b ..
  have "from_trunk_lines text =
      (from_trunk_head_lines @ concat (map (inbound_block_lines ?fm ring_timeout_map) xs)) @
      ?blk @
      (concat (map (inbound_block_lines ?fm ring_timeout_map) ys) @ catch_all_lines @ [[]])"
    unfolding assms(1) if_P [OF ne] c append_assoc ..
  then show ?thesis
    by (intro exI)
qed

lemma override_header_iff:
  assumes "\<forall>f \<in> set forwards. pattern_safe (fwd_extension f) \<and> newline_free (destination f)"
      and "\<forall>mb \<in> set mailboxes. pattern_safe (mb_extension mb)"
  shows "ext \<in> set (header_patterns (text_lines (override_section (build_forward_map forwards)
                                         (build_ring_timeout_map mailboxes)))) \<longleftrightarrow>
         ext \<in> fwd_extension ` set forwards \<or>
         dict_get_default (build_ring_timeout_map mailboxes) ext 20 \<noteq> 20"
  unfolding override_section_patterns [OF assms]
  by (simp add: finite_override_extensions override_extensions_iff [OF ring_timeout_map_distinct]
        forward_map_keys)

section \<open>The claims\<close>

text \<open>
  Claim C1. The compiler is a function of its five inputs that always returns
  a text: equal inputs give equal texts. The one collection it iterates whose
  order Python does not fix is the set \<^verbatim>\<open>override_extensions\<close>, and it is read
  through \<^verbatim>\<open>sorted\<close>: whatever order \<open>es\<close> the set is enumerated in, sorting
  gives the same list.
\<close>

theorem generate_extensions_config_deterministic:
  "(\<exists>text. generate_extensions_config routes forwards mailboxes peers trunks = Inr text) \<and>
   (routes' = routes \<and> forwards' = forwards \<and> mailboxes' = mailboxes \<and> peers' = peers \<and>
    trunks' = trunks \<longrightarrow>
      generate_extensions_config routes' forwards' mailboxes' peers' trunks' =
      generate_extensions_config routes forwards mailboxes peers trunks) \<and>
   (\<forall>es. distinct es \<and>
      set es = override_extensions (build_forward_map (or_empty forwards))
                 (build_ring_timeout_map (or_empty mailboxes)) \<longrightarrow>
      sort es = sorted_list_of_set
                  (override_extensions (build_forward_map (or_empty forwards))
                     (build_ring_timeout_map (or_empty mailboxes))))"
proof -
  obtain om where om: "build_outbound_map routes peers = Inr om"
    using build_outbound_map_total [of routes peers] by (elim exE conjE)
  have 1: "\<exists>text. generate_extensions_config routes forwards mailboxes peers trunks = Inr text"
    unfolding generate_extensions_config_text [OF om] by (rule exI) (rule refl)
  have 2: "\<forall>es. distinct es \<and>
      set es = override_extensions (build_forward_map (or_empty forwards))
                 (build_ring_timeout_map (or_empty mailboxes)) \<longrightarrow>
      sort es = sorted_list_of_set
                  (override_extensions (build_forward_map (or_empty forwards))
                     (build_ring_timeout_map (or_empty mailboxes)))"
    by (intro allI impI, elim conjE) (rule sort_enumeration)
  from 1 2 show ?thesis by simp
qed

theorem generate_extensions_config_deterministic_witness:
  "(\<exists>text. generate_extensions_config [route_a] (Some [cfu_example]) (Some [mailbox_long]) None None = Inr text) \<and>
   distinct [''1003'', ''1000''] \<and>
   set [''1003'', ''1000''] =
     override_extensions (build_forward_map (or_empty (Some [cfu_example])))
       (build_ring_timeout_map (or_empty (Some [mailbox_long]))) \<and>
   sorted_list_of_set
     (override_extensions (build_forward_map (or_empty (Some [cfu_example])))
        (build_ring_timeout_map (or_empty (Some [mailbox_long])))) = [''1000'', ''1003'']"
proof -
  note t = generate_extensions_config_deterministic
    [of "[route_a]" "Some [cfu_example]" "Some [mailbox_long]" None None
        "[route_a]" "Some [cfu_example]" "Some [mailbox_long]" None None]
  have d: "distinct [''1003'', ''1000'']" by simp
  have s: "set [''1003'', ''1000''] =
     override_extensions (build_forward_map (or_empty (Some [cfu_example])))
       (build_ring_timeout_map (or_empty (Some [mailbox_long])))"
    by (auto simp: override_extensions_def build_forward_map_def build_ring_timeout_map_def
          dict_keys_def or_empty_def dict_get_def dict_get_default_def resolved_timeout_def
          cfu_example_def mailbox_long_def)
  from t have "sort [''1003'', ''1000''] = sorted_list_of_set
     (override_extensions (build_forward_map (or_empty (Some [cfu_example])))
        (build_ring_timeout_map (or_empty (Some [mailbox_long]))))"
    using d s by (elim conjE allE [of _ "[''1003'', ''1000'']"]) (erule mp, intro conjI)
  moreover have "sort [''1003'', ''1000''] = [''1000'', ''1003'']" by simp
  ultimately have e: "sorted_list_of_set
     (override_extensions (build_forward_map (or_empty (Some [cfu_example])))
        (build_ring_timeout_map (or_empty (Some [mailbox_long])))) = [''1000'', ''1003'']" by simp
  from t have x: "\<exists>text. generate_extensions_config [route_a] (Some [cfu_example]) (Some [mailbox_long]) None None = Inr text"
    by (elim conjE)
  from x d s e show ?thesis by (intro conjI)
qed

text \<open>
  Claim C2. When the forward map holds an unconditional forward for the
  extension, the block is the notice, the optional answer and pause, the dial
  to the forward destination and the hang-up; none of its lines is a
  device-state probe and none is a \<^verbatim>\<open>VoiceMail\<close> instruction. When the forward
  destination holds no line break, these are the lines of the returned text.
\<close>

theorem unconditional_forward_short_circuit:
  assumes "forward_of fwd_map extension ''unconditional'' = Some cfu"
  shows \<open>dial_logic_lines extension fwd_map ring_time early_answer =
           ['' same => n,NoOp(CFU active: forwarding to '' @ destination cfu @ '')''] @
           (if early_answer then ['' same => n,Answer()'', '' same => n,Wait(0.5)''] else []) @
           ['' same => n,Dial(PJSIP/'' @ destination cfu @ ''@trunk,'' @ str_int ring_time @ '',tT)'',
            '' same => n,Hangup()''] \<and>
         (\<forall>l \<in> set (dial_logic_lines extension fwd_map ring_time early_answer).
            \<not> device_state_probe l \<and> line_app l \<noteq> Some ''VoiceMail'') \<and>
         (newline_free (destination cfu) \<longrightarrow>
            text_lines (generate_dial_logic extension fwd_map ring_time early_answer) =
            dial_logic_lines extension fwd_map ring_time early_answer)\<close>
proof -
  have apps: "map line_app (dial_logic_lines extension fwd_map ring_time early_answer) =
      [Some ''NoOp''] @ (if early_answer then [Some ''Answer'', Some ''Wait''] else []) @
      [Some ''Dial'', Some ''Hangup'']"
    using assms by (simp add: dial_logic_lines_def forward_of_def line_simps)
  have "\<not> device_state_probe l \<and> line_app l \<noteq> Some ''VoiceMail''"
    if "l \<in> set (dial_logic_lines extension fwd_map ring_time early_answer)" for l
  proof -
    from that have "line_app l \<in> set (map line_app (dial_logic_lines extension fwd_map ring_time early_answer))"
      by simp
    then have "line_app l \<in> {Some ''NoOp'', Some ''Answer'', Some ''Wait'', Some ''Dial'', Some ''Hangup''}"
      unfolding apps by (auto split: if_splits)
    then show ?thesis using probe_app [of l] by auto
  qed
  then have none: "\<forall>l \<in> set (dial_logic_lines extension fwd_map ring_time early_answer).
            \<not> device_state_probe l \<and> line_app l \<noteq> Some ''VoiceMail''"
    by (intro ballI)
  have lines: \<open>dial_logic_lines extension fwd_map ring_time early_answer =
           ['' same => n,NoOp(CFU active: forwarding to '' @ destination cfu @ '')''] @
           (if early_answer then ['' same => n,Answer()'', '' same => n,Wait(0.5)''] else []) @
           ['' same => n,Dial(PJSIP/'' @ destination cfu @ ''@trunk,'' @ str_int ring_time @ '',tT)'',
            '' same => n,Hangup()'']\<close>
    using assms by (simp add: dial_logic_lines_def forward_of_def)
  from lines none cfu_text_lines [OF assms] show ?thesis
    by (intro conjI impI)
qed

theorem unconditional_forward_short_circuit_witness:
  \<open>forward_of (build_forward_map [cfu_example]) ''1000'' ''unconditional'' = Some cfu_example \<and>
   newline_free (destination cfu_example) \<and>
   text_lines (generate_dial_logic ''1000'' (build_forward_map [cfu_example]) 20 True) =
     ['' same => n,NoOp(CFU active: forwarding to 0172)'', '' same => n,Answer()'',
      '' same => n,Wait(0.5)'', '' same => n,Dial(PJSIP/0172@trunk,20,tT)'', '' same => n,Hangup()''] \<and>
   list_all (\<lambda>l. \<not> device_state_probe l \<and> line_app l \<noteq> Some ''VoiceMail'')
     (dial_logic_lines ''1000'' (build_forward_map [cfu_example]) 20 True)\<close>
proof -
  have h: "forward_of (build_forward_map [cfu_example]) ''1000'' ''unconditional'' = Some cfu_example"
    by (simp add: forward_of_def build_forward_map_def dict_get_def dict_get_default_def cfu_example_def)
  have n: "newline_free (destination cfu_example)"
    by (simp add: cfu_example_def)
  note t = unconditional_forward_short_circuit [OF h, of 20 True]
  from t have lines: \<open>dial_logic_lines ''1000'' (build_forward_map [cfu_example]) 20 True =
     ['' same => n,NoOp(CFU active: forwarding to 0172)'', '' same => n,Answer()'',
      '' same => n,Wait(0.5)'', '' same => n,Dial(PJSIP/0172@trunk,20,tT)'', '' same => n,Hangup()'']\<close>
    by (elim conjE) (simp add: str_int_20 cfu_example_def)
  from t n have "text_lines (generate_dial_logic ''1000'' (build_forward_map [cfu_example]) 20 True) =
      dial_logic_lines ''1000'' (build_forward_map [cfu_example]) 20 True"
    by (elim conjE impE)
  with lines have tl: \<open>text_lines (generate_dial_logic ''1000'' (build_forward_map [cfu_example]) 20 True) =
     ['' same => n,NoOp(CFU active: forwarding to 0172)'', '' same => n,Answer()'',
      '' same => n,Wait(0.5)'', '' same => n,Dial(PJSIP/0172@trunk,20,tT)'', '' same => n,Hangup()'']\<close>
    by simp
  from t have la: "list_all (\<lambda>l. \<not> device_state_probe l \<and> line_app l \<noteq> Some ''VoiceMail'')
     (dial_logic_lines ''1000'' (build_forward_map [cfu_example]) 20 True)"
    by (elim conjE) (simp only: list_all_iff)
  from h n tl la show ?thesis by (intro conjI)
qed

text \<open>
  Claim C3. For an extension with no unconditional, busy or no-answer forward
  the block is the full fallback: after the dial, a jump to \<open>busy\<close> or
  \<open>unavail\<close>; each label is a \<^verbatim>\<open>VoiceMail\<close> instruction (greeting \<open>u\<close> for
  \<open>unavail\<close>, \<open>b\<close> for \<open>busy\<close>) followed by a \<^verbatim>\<open>Hangup\<close>. The block has exactly
  these two \<^verbatim>\<open>VoiceMail\<close> and two \<^verbatim>\<open>Hangup\<close> instructions, and its text is never
  empty. When the extension holds no line break, these are the lines of the
  returned text.
\<close>

theorem default_fallback_complete:
  assumes "forward_of fwd_map extension ''unconditional'' = None"
      and "forward_of fwd_map extension ''busy'' = None"
      and "forward_of fwd_map extension ''no_answer'' = None"
  shows \<open>dial_logic_lines extension fwd_map ring_time early_answer =
           (if early_answer then ['' same => n,Answer()'', '' same => n,Wait(0.5)''] else []) @
           ['' same => n,Set(DEVICE_STATE=${DEVICE_STATE(PJSIP/'' @ extension @ '')})'',
            '' same => n,GotoIf($["${DEVICE_STATE}" = "UNAVAILABLE"]?unavail)'',
            '' same => n,GotoIf($["${DEVICE_STATE}" = "INVALID"]?unavail)'',
            '' same => n,Dial(PJSIP/'' @ extension @ '','' @ str_int ring_time @ '',tTr)'',
            '' same => n,GotoIf($["${DIALSTATUS}" = "BUSY"]?busy:unavail)'',
            '' same => n(unavail),VoiceMail('' @ extension @ ''@default,u)'',
            '' same => n,Hangup()'',
            '' same => n(busy),VoiceMail('' @ extension @ ''@default,b)'',
            '' same => n,Hangup()''] \<and>
         filter (\<lambda>l. line_app l = Some ''VoiceMail'')
             (dial_logic_lines extension fwd_map ring_time early_answer) =
           ['' same => n(unavail),VoiceMail('' @ extension @ ''@default,u)'',
            '' same => n(busy),VoiceMail('' @ extension @ ''@default,b)''] \<and>
         filter (\<lambda>l. line_app l = Some ''Hangup'')
             (dial_logic_lines extension fwd_map ring_time early_answer) =
           ['' same => n,Hangup()'', '' same => n,Hangup()''] \<and>
         generate_dial_logic extension fwd_map ring_time early_answer \<noteq> [] \<and>
         (newline_free extension \<longrightarrow>
            text_lines (generate_dial_logic extension fwd_map ring_time early_answer) =
            dial_logic_lines extension fwd_map ring_time early_answer)\<close>
proof -
  have lines: \<open>dial_logic_lines extension fwd_map ring_time early_answer =
           (if early_answer then ['' same => n,Answer()'', '' same => n,Wait(0.5)''] else []) @
           ['' same => n,Set(DEVICE_STATE=${DEVICE_STATE(PJSIP/'' @ extension @ '')})'',
            '' same => n,GotoIf($["${DEVICE_STATE}" = "UNAVAILABLE"]?unavail)'',
            '' same => n,GotoIf($["${DEVICE_STATE}" = "INVALID"]?unavail)'',
            '' same => n,Dial(PJSIP/'' @ extension @ '','' @ str_int ring_time @ '',tTr)'',
            '' same => n,GotoIf($["${DIALSTATUS}" = "BUSY"]?busy:unavail)'',
            '' same => n(unavail),VoiceMail('' @ extension @ ''@default,u)'',
            '' same => n,Hangup()'',
            '' same => n(busy),VoiceMail('' @ extension @ ''@default,b)'',
            '' same => n,Hangup()'']\<close>
    using assms by (simp add: dial_logic_lines_def forward_of_def)
  have vm: \<open>filter (\<lambda>l. line_app l = Some ''VoiceMail'')
             (dial_logic_lines extension fwd_map ring_time early_answer) =
           ['' same => n(unavail),VoiceMail('' @ extension @ ''@default,u)'',
            '' same => n(busy),VoiceMail('' @ extension @ ''@default,b)'']\<close>
    unfolding lines by (simp add: line_simps)
  have hu: \<open>filter (\<lambda>l. line_app l = Some ''Hangup'')
             (dial_logic_lines extension fwd_map ring_time early_answer) =
           ['' same => n,Hangup()'', '' same => n,Hangup()'']\<close>
    unfolding lines by (simp add: line_simps)
  have ne: "generate_dial_logic extension fwd_map ring_time early_answer \<noteq> []"
    by (rule generate_dial_logic_nonempty)
  from lines vm hu ne default_text_lines [OF assms] show ?thesis
    by (intro conjI impI)
qed

theorem default_fallback_complete_witness:
  \<open>forward_of [] ''${EXTEN}'' ''unconditional'' = None \<and>
   forward_of [] ''${EXTEN}'' ''busy'' = None \<and>
   forward_of [] ''${EXTEN}'' ''no_answer'' = None \<and>
   filter (\<lambda>l. line_app l = Some ''VoiceMail'') (dial_logic_lines ''${EXTEN}'' [] 20 False) =
     ['' same => n(unavail),VoiceMail(${EXTEN}@default,u)'',
      '' same => n(busy),VoiceMail(${EXTEN}@default,b)''] \<and>
   filter (\<lambda>l. line_app l = Some ''Hangup'') (dial_logic_lines ''${EXTEN}'' [] 20 False) =
     ['' same => n,Hangup()'', '' same => n,Hangup()''] \<and>
   generate_dial_logic ''${EXTEN}'' [] 20 False \<noteq> [] \<and>
   newline_free ''${EXTEN}'' \<and>
   text_lines (generate_dial_logic ''${EXTEN}'' [] 20 False) =
     dial_logic_lines ''${EXTEN}'' [] 20 False\<close>
proof -
  have h: "forward_of [] ''${EXTEN}'' ''unconditional'' = None"
    "forward_of [] ''${EXTEN}'' ''busy'' = None" "forward_of [] ''${EXTEN}'' ''no_answer'' = None"
    by (simp_all add: lookup_simps)
  note t = default_fallback_complete [OF h, of 20 False]
  have vm: \<open>filter (\<lambda>l. line_app l = Some ''VoiceMail'') (dial_logic_lines ''${EXTEN}'' [] 20 False) =
     ['' same => n(unavail),VoiceMail(${EXTEN}@default,u)'',
      '' same => n(busy),VoiceMail(${EXTEN}@default,b)'']\<close>
    using t [THEN conjunct2, THEN conjunct1] by simp
  have hu: \<open>filter (\<lambda>l. line_app l = Some ''Hangup'') (dial_logic_lines ''${EXTEN}'' [] 20 False) =
     ['' same => n,Hangup()'', '' same => n,Hangup()'']\<close>
    using t [THEN conjunct2, THEN conjunct2, THEN conjunct1] by simp
  have ne: \<open>generate_dial_logic ''${EXTEN}'' [] 20 False \<noteq> []\<close>
    using t [THEN conjunct2, THEN conjunct2, THEN conjunct2, THEN conjunct1] by simp
  have nf: \<open>newline_free ''${EXTEN}''\<close>
    by simp
  have tl: \<open>text_lines (generate_dial_logic ''${EXTEN}'' [] 20 False) =
     dial_logic_lines ''${EXTEN}'' [] 20 False\<close>
    using t [THEN conjunct2, THEN conjunct2, THEN conjunct2, THEN conjunct2] nf by (rule mp)
  from h vm hu ne nf tl show ?thesis by (intro conjI)
qed

text \<open>
  Claim C4. The compiler returns a text in which the internal context is
  followed by the override section, one override block for each element of a
  list \<open>exts\<close>; \<open>exts\<close> is sorted in the lexicographic order of strings, has
  no duplicates, and its elements are exactly the keys of the forward map (the
  extensions of the forward rows) together with the extensions whose ring
  timeout, as the ring-timeout map resolves it, is not 20. When the extensions
  hold no line break and no comma and the forward destinations no line break,
  the extension-match headers read from the text of the override section have
  exactly the patterns \<open>exts\<close>, each once and in this order.
\<close>

theorem override_set_correct:
  "\<exists>exts outbound_map.
     generate_extensions_config routes forwards mailboxes peers trunks =
       Inr (internal_context @
            override_section (build_forward_map (or_empty forwards))
              (build_ring_timeout_map (or_empty mailboxes)) @
            outbound_section outbound_map (build_trunk_map (or_empty trunks) []) @
            config_static @
            config_did_extract @
            inbound_section (build_forward_map (or_empty forwards))
              (build_ring_timeout_map (or_empty mailboxes)) routes @
            config_catch_all) \<and>
     override_section (build_forward_map (or_empty forwards))
         (build_ring_timeout_map (or_empty mailboxes)) =
       concat (map (override_block (build_forward_map (or_empty forwards))
                      (build_ring_timeout_map (or_empty mailboxes))) exts) \<and>
     set exts = set (dict_keys (build_forward_map (or_empty forwards))) \<union>
                {ext. dict_get_default (build_ring_timeout_map (or_empty mailboxes)) ext 20 \<noteq> 20} \<and>
     set (dict_keys (build_forward_map (or_empty forwards))) = fwd_extension ` set (or_empty forwards) \<and>
     sorted exts \<and> distinct exts \<and>
     ((\<forall>f \<in> set (or_empty forwards). pattern_safe (fwd_extension f) \<and> newline_free (destination f)) \<and>
      (\<forall>mb \<in> set (or_empty mailboxes). pattern_safe (mb_extension mb)) \<longrightarrow>
        header_patterns (text_lines (override_section (build_forward_map (or_empty forwards))
                                       (build_ring_timeout_map (or_empty mailboxes)))) = exts)"
proof -
  let ?fm = "build_forward_map (or_empty forwards)"
  let ?rtm = "build_ring_timeout_map (or_empty mailboxes)"
  let ?exts = "sorted_list_of_set (override_extensions ?fm ?rtm)"
  obtain om where om: "build_outbound_map routes peers = Inr om"
    using build_outbound_map_total [of routes peers] by (elim exE conjE)
  note cfg = generate_extensions_config_text [OF om, of forwards mailboxes trunks]
  have sec: "override_section ?fm ?rtm = concat (map (override_block ?fm ?rtm) ?exts)"
    by (simp add: override_section_def)
  have "set ?exts = override_extensions ?fm ?rtm"
    by (simp add: finite_override_extensions)
  also have "\<dots> = set (dict_keys ?fm) \<union> {ext. dict_get_default ?rtm ext 20 \<noteq> 20}"
    using override_extensions_char [of "or_empty forwards" "or_empty mailboxes"]
    by (simp add: forward_map_keys)
  finally have s: "set ?exts = set (dict_keys ?fm) \<union> {ext. dict_get_default ?rtm ext 20 \<noteq> 20}" .
  have k: "set (dict_keys ?fm) = fwd_extension ` set (or_empty forwards)"
    by (rule forward_map_keys)
  have o: "sorted ?exts" "distinct ?exts"
    by simp_all
  have p: "header_patterns (text_lines (override_section ?fm ?rtm)) = ?exts"
    if "(\<forall>f \<in> set (or_empty forwards). pattern_safe (fwd_extension f) \<and> newline_free (destination f)) \<and>
      (\<forall>mb \<in> set (or_empty mailboxes). pattern_safe (mb_extension mb))"
    using that by (intro override_section_patterns) simp_all
  from cfg sec s k o p show ?thesis
    by (intro exI [of _ ?exts] exI [of _ om] conjI impI)
qed

theorem override_set_correct_witness:
  "list_all (\<lambda>f. pattern_safe (fwd_extension f) \<and> newline_free (destination f)) [cfu_example] \<and>
   list_all (\<lambda>mb. pattern_safe (mb_extension mb)) [mailbox_zero, mailbox_long] \<and>
   header_patterns (text_lines (override_section (build_forward_map (or_empty (Some [cfu_example])))
       (build_ring_timeout_map (or_empty (Some [mailbox_zero, mailbox_long]))))) = [''1000'', ''1003'']"
proof -
  let ?fm = "build_forward_map (or_empty (Some [cfu_example]))"
  let ?rtm = "build_ring_timeout_map (or_empty (Some [mailbox_zero, mailbox_long]))"
  have wf1: "list_all (\<lambda>f. pattern_safe (fwd_extension f) \<and> newline_free (destination f)) [cfu_example]"
    by (simp add: pattern_safe_def cfu_example_def)
  have wf2: "list_all (\<lambda>mb. pattern_safe (mb_extension mb)) [mailbox_zero, mailbox_long]"
    by (simp add: pattern_safe_def mailbox_zero_def mailbox_long_def)
  have wf: "(\<forall>f \<in> set (or_empty (Some [cfu_example])).
               pattern_safe (fwd_extension f) \<and> newline_free (destination f)) \<and>
            (\<forall>mb \<in> set (or_empty (Some [mailbox_zero, mailbox_long])). pattern_safe (mb_extension mb))"
    using wf1 wf2 by (simp add: or_empty_def)
  have keys: "set (dict_keys ?fm) = {''1000''}"
    by (simp add: dict_keys_def build_forward_map_def or_empty_def dict_get_def dict_get_default_def
          cfu_example_def)
  have rt: "{ext. dict_get_default ?rtm ext 20 \<noteq> 20} = {''1003''}"
    by (auto simp: build_ring_timeout_map_def or_empty_def dict_get_default_def resolved_timeout_def
          mailbox_zero_def mailbox_long_def split: if_splits)
  from override_set_correct [of "[]" "Some [cfu_example]" "Some [mailbox_zero, mailbox_long]" None None]
  obtain exts where s: "set exts = set (dict_keys ?fm) \<union> {ext. dict_get_default ?rtm ext 20 \<noteq> 20}"
    and o: "sorted exts" "distinct exts"
    and p: "(\<forall>f \<in> set (or_empty (Some [cfu_example])).
               pattern_safe (fwd_extension f) \<and> newline_free (destination f)) \<and>
            (\<forall>mb \<in> set (or_empty (Some [mailbox_zero, mailbox_long])). pattern_safe (mb_extension mb)) \<longrightarrow>
            header_patterns (text_lines (override_section ?fm ?rtm)) = exts"
    by (elim exE conjE) (rule that, assumption, assumption, assumption, assumption)
  from s have "set exts = set [''1000'', ''1003'']"
    unfolding keys rt by (simp add: insert_commute)
  with o have "exts = [''1000'', ''1003'']"
    by (intro sorted_distinct_unique) simp_all
  with p wf have "header_patterns (text_lines (override_section ?fm ?rtm)) = [''1000'', ''1003'']"
    by simp
  with wf1 wf2 show ?thesis by (intro conjI)
qed

text \<open>
  Claim C5. For an extension that owns at least one inbound route, the
  outbound map is built without error and holds an entry for the extension.
  With \<open>first # rest\<close> the routes of that extension in input order and the peer
  row kept for the extension: the selected route is \<open>first\<close> when there is no
  peer or its \<^verbatim>\<open>outbound_cid\<close> is \<^verbatim>\<open>None\<close> or empty; otherwise it is the first
  route of the group whose DID equals the \<^verbatim>\<open>outbound_cid\<close>, and \<open>first\<close> when no
  DID matches. The presence identity is the peer's \<^verbatim>\<open>pai\<close>, or \<^verbatim>\<open>None\<close> without
  a peer.
\<close>

theorem outbound_selection:
  assumes "ext \<in> destination_extension ` set routes"
  shows "\<exists>outbound_map first rest.
           build_outbound_map routes peers = Inr outbound_map \<and>
           filter (\<lambda>r. destination_extension r = ext) routes = first # rest \<and>
           dict_get outbound_map ext =
             Some ((case peer_of (or_empty peers) ext of
                      None \<Rightarrow> first
                    | Some p \<Rightarrow>
                        if truthy (outbound_cid p)
                        then (case find (\<lambda>r. Some (did r) = outbound_cid p) (first # rest) of
                                Some r \<Rightarrow> r | None \<Rightarrow> first)
                        else first),
                   (case peer_of (or_empty peers) ext of Some p \<Rightarrow> pai p | None \<Rightarrow> None))"
proof -
  from assms have "filter (\<lambda>r. destination_extension r = ext) routes \<noteq> []"
    by (auto simp: filter_empty_conv)
  then obtain first rest where "filter (\<lambda>r. destination_extension r = ext) routes = first # rest"
    by (cases "filter (\<lambda>r. destination_extension r = ext) routes") auto
  then show ?thesis
    using build_outbound_map_result [of routes peers]
    by (elim exE conjE) (intro exI conjI, assumption, assumption, simp)
qed

theorem outbound_selection_witness:
  "''1001'' \<in> destination_extension ` set [route_a, route_b] \<and>
   (\<exists>outbound_map. build_outbound_map [route_a, route_b] (Some [peer_example]) = Inr outbound_map \<and>
      dict_get outbound_map ''1001'' = Some (route_b, Some ''alice'')) \<and>
   (\<exists>outbound_map. build_outbound_map [route_a, route_b] None = Inr outbound_map \<and>
      dict_get outbound_map ''1001'' = Some (route_a, None))"
proof -
  have h: "''1001'' \<in> destination_extension ` set [route_a, route_b]"
    by (simp add: route_a_def)
  have f: "filter (\<lambda>r. destination_extension r = ''1001'') [route_a, route_b] = [route_a, route_b]"
    by (simp add: route_a_def route_b_def)
  have p: "peer_of (or_empty (Some [peer_example])) ''1001'' = Some peer_example"
    by (simp add: peer_of_def or_empty_def peer_example_def)
  have n: "peer_of (or_empty None) ''1001'' = None"
    by (simp add: peer_of_def or_empty_def)
  have c: "(if truthy (outbound_cid peer_example)
            then (case find (\<lambda>r. Some (did r) = outbound_cid peer_example) [route_a, route_b] of
                    Some r \<Rightarrow> r | None \<Rightarrow> route_a)
            else route_a) = route_b"
    by (simp add: truthy_def peer_example_def route_a_def route_b_def)
  have 1: "\<exists>outbound_map. build_outbound_map [route_a, route_b] (Some [peer_example]) = Inr outbound_map \<and>
      dict_get outbound_map ''1001'' = Some (route_b, Some ''alice'')"
  proof -
    from outbound_selection [OF h, of "Some [peer_example]"]
    obtain om first rest where om: "build_outbound_map [route_a, route_b] (Some [peer_example]) = Inr om"
      and fr: "filter (\<lambda>r. destination_extension r = ''1001'') [route_a, route_b] = first # rest"
      and sel: "dict_get om ''1001'' =
             Some ((case peer_of (or_empty (Some [peer_example])) ''1001'' of
                      None \<Rightarrow> first
                    | Some p \<Rightarrow>
                        if truthy (outbound_cid p)
                        then (case find (\<lambda>r. Some (did r) = outbound_cid p) (first # rest) of
                                Some r \<Rightarrow> r | None \<Rightarrow> first)
                        else first),
                   (case peer_of (or_empty (Some [peer_example])) ''1001'' of
                      Some p \<Rightarrow> pai p | None \<Rightarrow> None))"
      by (elim exE conjE) (rule that)
    from fr have fr': "first = route_a" "rest = [route_b]" unfolding f by simp_all
    have "dict_get om ''1001'' = Some (route_b, pai peer_example)"
      using sel unfolding p fr' by (simp only: option.case c)
    then have "dict_get om ''1001'' = Some (route_b, Some ''alice'')"
      by (simp add: peer_example_def)
    with om show ?thesis by blast
  qed
  have 2: "\<exists>outbound_map. build_outbound_map [route_a, route_b] None = Inr outbound_map \<and>
      dict_get outbound_map ''1001'' = Some (route_a, None)"
  proof -
    from outbound_selection [OF h, of None]
    obtain om first rest where om: "build_outbound_map [route_a, route_b] None = Inr om"
      and fr: "filter (\<lambda>r. destination_extension r = ''1001'') [route_a, route_b] = first # rest"
      and sel: "dict_get om ''1001'' =
             Some ((case peer_of (or_empty None) ''1001'' of
                      None \<Rightarrow> first
                    | Some p \<Rightarrow>
                        if truthy (outbound_cid p)
                        then (case find (\<lambda>r. Some (did r) = outbound_cid p) (first # rest) of
                                Some r \<Rightarrow> r | None \<Rightarrow> first)
                        else first),
                   (case peer_of (or_empty None) ''1001'' of
                      Some p \<Rightarrow> pai p | None \<Rightarrow> None))"
      by (elim exE conjE) (rule that)
    from fr have "first = route_a" unfolding f by simp
    with sel have "dict_get om ''1001'' = Some (route_a, None)"
      unfolding n by simp
    with om show ?thesis by blast
  qed
  from h 1 2 show ?thesis by blast
qed

text \<open>
  Claim C6. The dial logic contains an \<^verbatim>\<open>Answer\<close> instruction exactly when
  \<^verbatim>\<open>early_answer\<close> is true; when it is true, \<^verbatim>\<open>Answer()\<close> is followed at once by
  \<^verbatim>\<open>Wait(0.5)\<close> and no line before them is a device-state probe or a \<^verbatim>\<open>Dial\<close>.
  The compiler returns a text that begins with the internal context and the
  override section and ends with the from-trunk context. When the strings
  of the routes, forwards and mailboxes hold no line break, and the DIDs and
  extensions no comma, no line of the internal context or of the override
  section of this text is an \<^verbatim>\<open>Answer\<close> instruction; the \<^verbatim>\<open>Answer\<close> lines of the
  from-trunk context are exactly one per inbound route; and the block of every
  route stands in the from-trunk context with its header followed by
  \<^verbatim>\<open>Answer()\<close> and \<^verbatim>\<open>Wait(0.5)\<close>, no probe or \<^verbatim>\<open>Dial\<close> between the header and
  them.
\<close>

theorem early_answer_only_inbound:
  \<open>(Some ''Answer'' \<in> set (map line_app (dial_logic_lines extension fwd_map ring_time early_answer))
      \<longleftrightarrow> early_answer) \<and>
   (\<exists>pre post. dial_logic_lines extension fwd_map ring_time True =
       pre @ ['' same => n,Answer()'', '' same => n,Wait(0.5)''] @ post \<and>
     (\<forall>l \<in> set pre. \<not> device_state_probe l \<and> line_app l \<noteq> Some ''Dial'')) \<and>
   (\<exists>text outbound_map.
      generate_extensions_config routes forwards mailboxes peers trunks = Inr text \<and>
      text =
        internal_context @
        override_section (build_forward_map (or_empty forwards))
          (build_ring_timeout_map (or_empty mailboxes)) @
        outbound_section outbound_map (build_trunk_map (or_empty trunks) []) @
        config_static @
        config_did_extract @
        inbound_section (build_forward_map (or_empty forwards))
          (build_ring_timeout_map (or_empty mailboxes)) routes @
        config_catch_all \<and>
      ((\<forall>r \<in> set routes. wf_route r) \<and>
       (\<forall>f \<in> set (or_empty forwards).
          pattern_safe (fwd_extension f) \<and> newline_free (destination f)) \<and>
       (\<forall>mb \<in> set (or_empty mailboxes). pattern_safe (mb_extension mb)) \<longrightarrow>
         (\<forall>l \<in> set (text_lines
                      (internal_context @
                       override_section (build_forward_map (or_empty forwards))
                         (build_ring_timeout_map (or_empty mailboxes)))).
            line_app l \<noteq> Some ''Answer'') \<and>
         filter (\<lambda>l. line_app l = Some ''Answer'') (from_trunk_lines text) =
           replicate (length routes) '' same => n,Answer()'' \<and>
         (\<forall>route \<in> set routes. \<exists>before pre post.
            from_trunk_lines text =
              before @
              [[],
               ''; '' @ (if truthy (description route) then or_empty (description route)
                         else did route),
               ''exten => '' @ did route @ '',1,NoOp(Inbound call to DID '' @ did route @ '')'',
               '' same => n,Set(CALLERID(name)=${CALLERID(name)})''] @
              pre @ ['' same => n,Answer()'', '' same => n,Wait(0.5)''] @ post \<and>
            (\<forall>l \<in> set pre. \<not> device_state_probe l \<and> line_app l \<noteq> Some ''Dial''))))\<close>
proof -
  let ?fm = "build_forward_map (or_empty forwards)"
  let ?rtm = "build_ring_timeout_map (or_empty mailboxes)"
  let ?wf = "(\<forall>r \<in> set routes. wf_route r) \<and>
       (\<forall>f \<in> set (or_empty forwards).
          pattern_safe (fwd_extension f) \<and> newline_free (destination f)) \<and>
       (\<forall>mb \<in> set (or_empty mailboxes). pattern_safe (mb_extension mb))"
  from build_outbound_map_total [of routes peers] obtain om
    where om: "build_outbound_map routes peers = Inr om"
    by (elim exE conjE) (rule that)
  note cfg = generate_extensions_config_text [OF om, of forwards mailboxes trunks]
  let ?text = "internal_context @ override_section ?fm ?rtm @
        outbound_section om (build_trunk_map (or_empty trunks) []) @
        config_static @ config_did_extract @ inbound_section ?fm ?rtm routes @ config_catch_all"
  have ft: "from_trunk_lines ?text =
             from_trunk_head_lines @
             (if routes \<noteq> [] then concat (map (inbound_block_lines ?fm ?rtm) routes)
              else no_routes_lines) @
             catch_all_lines @ [[]]" if wf: ?wf
  proof -
    from wf have r: "\<forall>r \<in> set routes. wf_route r"
      and f: "\<forall>f \<in> set (or_empty forwards). newline_free (destination f)"
      by simp_all
    from from_trunk_lines_text [OF r f, of mailboxes peers trunks]
    obtain t where t: "generate_extensions_config routes forwards mailboxes peers trunks = Inr t"
      and l: "from_trunk_lines t =
             from_trunk_head_lines @
             (if routes \<noteq> [] then concat (map (inbound_block_lines ?fm ?rtm) routes)
              else no_routes_lines) @
             catch_all_lines @ [[]]"
      by (elim exE conjE) (rule that, assumption, assumption)
    from t cfg have "t = ?text" by simp
    with l show ?thesis by simp
  qed
  have 3: "\<forall>l \<in> set (text_lines (internal_context @ override_section ?fm ?rtm)).
            line_app l \<noteq> Some ''Answer''" if wf: ?wf
    using wf by (intro internal_override_no_answer) simp_all
  have 4: "filter (\<lambda>l. line_app l = Some ''Answer'') (from_trunk_lines ?text) =
           replicate (length routes) '' same => n,Answer()''" if wf: ?wf
    using ft [OF wf] by (rule from_trunk_answer_lines)
  have 5: \<open>\<forall>route \<in> set routes. \<exists>before pre post.
            from_trunk_lines ?text =
              before @
              [[],
               ''; '' @ (if truthy (description route) then or_empty (description route)
                         else did route),
               ''exten => '' @ did route @ '',1,NoOp(Inbound call to DID '' @ did route @ '')'',
               '' same => n,Set(CALLERID(name)=${CALLERID(name)})''] @
              pre @ ['' same => n,Answer()'', '' same => n,Wait(0.5)''] @ post \<and>
            (\<forall>l \<in> set pre. \<not> device_state_probe l \<and> line_app l \<noteq> Some ''Dial'')\<close> if wf: ?wf
    using ft [OF wf] by (intro ballI from_trunk_answer_first)
  have c: \<open>\<exists>text outbound_map.
      generate_extensions_config routes forwards mailboxes peers trunks = Inr text \<and>
      text =
        internal_context @ override_section ?fm ?rtm @
        outbound_section outbound_map (build_trunk_map (or_empty trunks) []) @
        config_static @ config_did_extract @ inbound_section ?fm ?rtm routes @ config_catch_all \<and>
      (?wf \<longrightarrow>
         (\<forall>l \<in> set (text_lines (internal_context @ override_section ?fm ?rtm)).
            line_app l \<noteq> Some ''Answer'') \<and>
         filter (\<lambda>l. line_app l = Some ''Answer'') (from_trunk_lines text) =
           replicate (length routes) '' same => n,Answer()'' \<and>
         (\<forall>route \<in> set routes. \<exists>before pre post.
            from_trunk_lines text =
              before @
              [[],
               ''; '' @ (if truthy (description route) then or_empty (description route)
                         else did route),
               ''exten => '' @ did route @ '',1,NoOp(Inbound call to DID '' @ did route @ '')'',
               '' same => n,Set(CALLERID(name)=${CALLERID(name)})''] @
              pre @ ['' same => n,Answer()'', '' same => n,Wait(0.5)''] @ post \<and>
            (\<forall>l \<in> set pre. \<not> device_state_probe l \<and> line_app l \<noteq> Some ''Dial'')))\<close>
  proof (intro exI [of _ ?text] exI [of _ om] conjI impI)
    show "generate_extensions_config routes forwards mailboxes peers trunks = Inr ?text"
      by (rule cfg)
  qed (rule refl, erule 3, erule 4, erule 5)
  from answer_iff [of extension fwd_map ring_time early_answer]
       answer_first [of extension fwd_map ring_time] c
  show ?thesis by (intro conjI)
qed

theorem early_answer_only_inbound_witness:
  \<open>list_all wf_route [route_a, route_b] \<and>
   list_all (\<lambda>f. pattern_safe (fwd_extension f) \<and> newline_free (destination f)) [cfu_example] \<and>
   list_all (\<lambda>mb. pattern_safe (mb_extension mb)) [mailbox_long] \<and>
   (\<exists>text. generate_extensions_config [route_a, route_b] (Some [cfu_example]) (Some [mailbox_long])
              None None = Inr text \<and>
      filter (\<lambda>l. line_app l = Some ''Answer'') (from_trunk_lines text) =
        ['' same => n,Answer()'', '' same => n,Answer()'']) \<and>
   list_all (\<lambda>l. line_app l \<noteq> Some ''Answer'')
     (text_lines (internal_context @
        override_section (build_forward_map [cfu_example]) (build_ring_timeout_map [mailbox_long])))\<close>
proof -
  have r: "\<forall>r \<in> set [route_a, route_b]. wf_route r"
    by (simp add: wf_route_def route_a_def route_b_def or_empty_def)
  have f: "\<forall>f \<in> set (or_empty (Some [cfu_example])).
      pattern_safe (fwd_extension f) \<and> newline_free (destination f)"
    by (simp add: or_empty_def pattern_safe_def cfu_example_def)
  have m: "\<forall>mb \<in> set (or_empty (Some [mailbox_long])). pattern_safe (mb_extension mb)"
    by (simp add: or_empty_def pattern_safe_def mailbox_long_def)
  from early_answer_only_inbound [of "''1001''" "[]" 20 True "[route_a, route_b]"
      "Some [cfu_example]" "Some [mailbox_long]" None None]
  obtain cfg om where
    t: "generate_extensions_config [route_a, route_b] (Some [cfu_example]) (Some [mailbox_long])
          None None = Inr cfg"
    and imp: \<open>(\<forall>r \<in> set [route_a, route_b]. wf_route r) \<and>
       (\<forall>f \<in> set (or_empty (Some [cfu_example])).
          pattern_safe (fwd_extension f) \<and> newline_free (destination f)) \<and>
       (\<forall>mb \<in> set (or_empty (Some [mailbox_long])). pattern_safe (mb_extension mb)) \<longrightarrow>
         (\<forall>l \<in> set (text_lines
                      (internal_context @
                       override_section (build_forward_map (or_empty (Some [cfu_example])))
                         (build_ring_timeout_map (or_empty (Some [mailbox_long]))))).
            line_app l \<noteq> Some ''Answer'') \<and>
         filter (\<lambda>l. line_app l = Some ''Answer'') (from_trunk_lines cfg) =
           replicate (length [route_a, route_b]) '' same => n,Answer()'' \<and>
         (\<forall>route \<in> set [route_a, route_b]. \<exists>before pre post.
            from_trunk_lines cfg =
              before @
              [[],
               ''; '' @ (if truthy (description route) then or_empty (description route)
                         else did route),
               ''exten => '' @ did route @ '',1,NoOp(Inbound call to DID '' @ did route @ '')'',
               '' same => n,Set(CALLERID(name)=${CALLERID(name)})''] @
              pre @ ['' same => n,Answer()'', '' same => n,Wait(0.5)''] @ post \<and>
            (\<forall>l \<in> set pre. \<not> device_state_probe l \<and> line_app l \<noteq> Some ''Dial''))\<close>
    by (elim exE conjE) (rule that, assumption, assumption)
  from r f m have hyp: "(\<forall>r \<in> set [route_a, route_b]. wf_route r) \<and>
       (\<forall>f \<in> set (or_empty (Some [cfu_example])).
          pattern_safe (fwd_extension f) \<and> newline_free (destination f)) \<and>
       (\<forall>mb \<in> set (or_empty (Some [mailbox_long])). pattern_safe (mb_extension mb))"
    by (intro conjI)
  note c = imp [THEN mp, OF hyp]
  note a = c [THEN conjunct1]
  note b = c [THEN conjunct2, THEN conjunct1]
  from b have b': "filter (\<lambda>l. line_app l = Some ''Answer'') (from_trunk_lines cfg) =
        ['' same => n,Answer()'', '' same => n,Answer()'']"
    by (simp add: numeral_2_eq_2)
  from a have a': "list_all (\<lambda>l. line_app l \<noteq> Some ''Answer'')
     (text_lines (internal_context @
        override_section (build_forward_map [cfu_example]) (build_ring_timeout_map [mailbox_long])))"
    unfolding list_all_iff by (simp add: or_empty_def)
  have r': "list_all wf_route [route_a, route_b]"
    using r unfolding list_all_iff .
  have f': "list_all (\<lambda>f. pattern_safe (fwd_extension f) \<and> newline_free (destination f)) [cfu_example]"
    using f unfolding list_all_iff by (simp add: or_empty_def)
  have m': "list_all (\<lambda>mb. pattern_safe (mb_extension mb)) [mailbox_long]"
    using m unfolding list_all_iff by (simp add: or_empty_def)
  from t b' have e: "\<exists>text. generate_extensions_config [route_a, route_b] (Some [cfu_example])
              (Some [mailbox_long]) None None = Inr text \<and>
      filter (\<lambda>l. line_app l = Some ''Answer'') (from_trunk_lines text) =
        ['' same => n,Answer()'', '' same => n,Answer()'']"
    by (intro exI conjI)
  from r' f' m' e a' show ?thesis by (intro conjI)
qed

text \<open>
  Claim C7. The compiler emits one block for each inbound route, in input
  order, and the catch-all after them; it removes no duplicate. For routes and
  forwards whose strings hold no line break, and DIDs without a comma, the
  headers of the from-trunk context are \<^verbatim>\<open>s\<close>, then one header for each route
  with the route's DID as its pattern (or \<^verbatim>\<open>_X.\<close> when there is no route), then
  the catch-all as the last header; so the per-route patterns are pairwise
  different exactly when the DIDs of the input routes are.
\<close>

theorem from_trunk_entries:
  "\<exists>text before.
     generate_extensions_config routes forwards mailboxes peers trunks = Inr text \<and>
     text = before @
            inbound_section (build_forward_map (or_empty forwards))
              (build_ring_timeout_map (or_empty mailboxes)) routes @
            config_catch_all \<and>
     ((\<forall>r \<in> set routes. wf_route r) \<and>
      (\<forall>f \<in> set (or_empty forwards). newline_free (destination f)) \<longrightarrow>
        from_trunk_patterns text =
          ''s'' # (if routes \<noteq> [] then map did routes else [''_X.'']) @ [''_[+0-9].''] \<and>
        (routes \<noteq> [] \<longrightarrow> route_patterns text = map did routes) \<and>
        (route_patterns_distinct (Inr text) \<longleftrightarrow> distinct (map did routes)) \<and>
        last (from_trunk_patterns text) = ''_[+0-9].'')"
proof -
  let ?fm = "build_forward_map (or_empty forwards)"
  let ?rtm = "build_ring_timeout_map (or_empty mailboxes)"
  obtain om where om: "build_outbound_map routes peers = Inr om"
    using build_outbound_map_total [of routes peers] by (elim exE conjE)
  let ?before = "internal_context @ override_section ?fm ?rtm @
            outbound_section om (build_trunk_map (or_empty trunks) []) @ config_static @
            config_did_extract"
  let ?text = "?before @ inbound_section ?fm ?rtm routes @ config_catch_all"
  have gen: "generate_extensions_config routes forwards mailboxes peers trunks = Inr ?text"
    using generate_extensions_config_text [OF om] by simp
  have "from_trunk_patterns ?text =
          ''s'' # (if routes \<noteq> [] then map did routes else [''_X.'']) @ [''_[+0-9].''] \<and>
        (routes \<noteq> [] \<longrightarrow> route_patterns ?text = map did routes) \<and>
        (route_patterns_distinct (Inr ?text) \<longleftrightarrow> distinct (map did routes)) \<and>
        last (from_trunk_patterns ?text) = ''_[+0-9].''"
    if wf: "\<forall>r \<in> set routes. wf_route r"
      and fw: "\<forall>f \<in> set (or_empty forwards). newline_free (destination f)"
  proof -
    from from_trunk_patterns_text [OF wf fw, of mailboxes peers trunks]
    obtain t where t: "generate_extensions_config routes forwards mailboxes peers trunks = Inr t"
      and p: "from_trunk_patterns t =
          ''s'' # (if routes \<noteq> [] then map did routes else [''_X.'']) @ [''_[+0-9].'']"
      by (elim exE conjE)
    from t gen have "t = ?text" by simp
    with p have p': "from_trunk_patterns ?text =
          ''s'' # (if routes \<noteq> [] then map did routes else [''_X.'']) @ [''_[+0-9].'']"
      by simp
    note r = route_patterns_of [OF p']
    from r(1) have d: "route_patterns_distinct (Inr ?text) \<longleftrightarrow> distinct (map did routes)"
      by (simp add: route_patterns_distinct_def)
    from p' r d show ?thesis by simp
  qed
  with gen show ?thesis
    by (intro exI [of _ ?text] exI [of _ ?before] conjI impI) simp_all
qed

theorem from_trunk_entries_witness:
  "wf_route route_a \<and> wf_route route_b \<and>
   route_patterns_distinct (generate_extensions_config [route_a, route_b] None None None None)"
proof -
  have wa: "wf_route route_a" and wb: "wf_route route_b"
    by (simp_all add: wf_route_def route_a_def route_b_def or_empty_def)
  then have wf: "\<forall>r \<in> set [route_a, route_b]. wf_route r" by simp
  have fw: "\<forall>f \<in> set (or_empty (None :: call_forward list option)). newline_free (destination f)"
    by (simp add: or_empty_def)
  from from_trunk_entries [of "[route_a, route_b]" None None None None]
  obtain t where t: "generate_extensions_config [route_a, route_b] None None None None = Inr t"
    and imp: "(\<forall>r \<in> set [route_a, route_b]. wf_route r) \<and>
      (\<forall>f \<in> set (or_empty (None :: call_forward list option)). newline_free (destination f)) \<longrightarrow>
        from_trunk_patterns t =
          ''s'' # (if [route_a, route_b] \<noteq> [] then map did [route_a, route_b] else [''_X.'']) @
          [''_[+0-9].''] \<and>
        ([route_a, route_b] \<noteq> [] \<longrightarrow> route_patterns t = map did [route_a, route_b]) \<and>
        (route_patterns_distinct (Inr t) \<longleftrightarrow> distinct (map did [route_a, route_b])) \<and>
        last (from_trunk_patterns t) = ''_[+0-9].''"
    by (elim exE conjE) (rule that, assumption, assumption)
  from imp wf fw have "route_patterns_distinct (Inr t) \<longleftrightarrow> distinct (map did [route_a, route_b])"
    by simp
  then have "route_patterns_distinct (Inr t)"
    by (simp add: route_a_def route_b_def)
  with t wa wb show ?thesis by simp
qed

text \<open>
  Claim C7 as it is stated fails: two routes with the same DID give two
  per-route headers with the same pattern.
\<close>

theorem duplicate_did_counterexample:
  "\<not> route_patterns_distinct
       (generate_extensions_config [route_dup_a, route_dup_b] None None None None)"
proof -
  have fw: "\<forall>f \<in> set (or_empty None). newline_free (destination f)"
    by (simp add: or_empty_def)
  from from_trunk_patterns_text [OF wf_route_dup fw, of None None None]
  obtain t where t: "generate_extensions_config [route_dup_a, route_dup_b] None None None None = Inr t"
    and p: "from_trunk_patterns t =
        ''s'' # (if [route_dup_a, route_dup_b] \<noteq> [] then map did [route_dup_a, route_dup_b]
                 else [''_X.'']) @ [''_[+0-9].'']"
    by (elim exE conjE)
  from p have "route_patterns t = [''100'', ''100'']"
    by (simp add: route_patterns_def route_dup_a_def route_dup_b_def)
  then show ?thesis
    by (simp add: t route_patterns_distinct_def)
qed

text \<open>
  Claim C8. Without an unconditional forward, the \<^verbatim>\<open>Dial\<close> instructions of the
  block are: first the dial of the called extension, whose duration is the ring
  time of the no-answer forward when there is one and the ring time passed by
  the caller otherwise; then the dial of the no-answer forward and the dial of
  the busy forward, where they exist, each with the fixed duration 30. When
  the extension and the destinations of its forwards hold no line break, these
  are the \<^verbatim>\<open>Dial\<close> lines of the text the synthesizer returns.
\<close>

theorem dial_ring_time:
  assumes "forward_of fwd_map extension ''unconditional'' = None"
  shows \<open>filter (\<lambda>l. line_app l = Some ''Dial'')
             (dial_logic_lines extension fwd_map ring_time early_answer) =
           ['' same => n,Dial(PJSIP/'' @ extension @ '','' @
              str_int (case forward_of fwd_map extension ''no_answer'' of
                         Some cfna \<Rightarrow> fwd_ring_time cfna | None \<Rightarrow> ring_time) @ '',tTr)''] @
           (case forward_of fwd_map extension ''no_answer'' of
              Some cfna \<Rightarrow> ['' same => n,Dial(PJSIP/'' @ destination cfna @ ''@trunk,30,tT)'']
            | None \<Rightarrow> []) @
           (case forward_of fwd_map extension ''busy'' of
              Some cfb \<Rightarrow> ['' same => n,Dial(PJSIP/'' @ destination cfb @ ''@trunk,30,tT)'']
            | None \<Rightarrow> []) \<and>
         (newline_free extension \<and>
          (\<forall>t f. forward_of fwd_map extension t = Some f \<longrightarrow> newline_free (destination f)) \<longrightarrow>
            filter (\<lambda>l. line_app l = Some ''Dial'')
              (text_lines (generate_dial_logic extension fwd_map ring_time early_answer)) =
            ['' same => n,Dial(PJSIP/'' @ extension @ '','' @
               str_int (case forward_of fwd_map extension ''no_answer'' of
                          Some cfna \<Rightarrow> fwd_ring_time cfna | None \<Rightarrow> ring_time) @ '',tTr)''] @
            (case forward_of fwd_map extension ''no_answer'' of
               Some cfna \<Rightarrow> ['' same => n,Dial(PJSIP/'' @ destination cfna @ ''@trunk,30,tT)'']
             | None \<Rightarrow> []) @
            (case forward_of fwd_map extension ''busy'' of
               Some cfb \<Rightarrow> ['' same => n,Dial(PJSIP/'' @ destination cfb @ ''@trunk,30,tT)'']
             | None \<Rightarrow> []))\<close>
proof -
  note d = dial_lines_of_block [OF assms, of ring_time early_answer]
  have "text_lines (generate_dial_logic extension fwd_map ring_time early_answer) =
      dial_logic_lines extension fwd_map ring_time early_answer"
    if "newline_free extension \<and>
        (\<forall>t f. forward_of fwd_map extension t = Some f \<longrightarrow> newline_free (destination f))"
    using that by (intro generate_dial_logic_text_lines) simp_all
  with d show ?thesis
    by (intro conjI impI) simp_all
qed

theorem dial_ring_time_witness:
  \<open>forward_of (build_forward_map [cfna_example, cfb_example]) ''1002'' ''unconditional'' = None \<and>
   newline_free ''1002'' \<and>
   list_all (\<lambda>f. newline_free (destination f)) [cfna_example, cfb_example] \<and>
   filter (\<lambda>l. line_app l = Some ''Dial'')
     (dial_logic_lines ''1002'' (build_forward_map [cfna_example, cfb_example]) 20 True) =
     ['' same => n,Dial(PJSIP/1002,15,tTr)'', '' same => n,Dial(PJSIP/0171@trunk,30,tT)'',
      '' same => n,Dial(PJSIP/0173@trunk,30,tT)''] \<and>
   filter (\<lambda>l. line_app l = Some ''Dial'')
     (text_lines (generate_dial_logic ''1002'' (build_forward_map [cfna_example, cfb_example]) 20 True)) =
     ['' same => n,Dial(PJSIP/1002,15,tTr)'', '' same => n,Dial(PJSIP/0171@trunk,30,tT)'',
      '' same => n,Dial(PJSIP/0173@trunk,30,tT)'']\<close>
proof -
  let ?fm = "build_forward_map [cfna_example, cfb_example]"
  have h: "forward_of ?fm ''1002'' ''unconditional'' = None"
    by (simp add: lookup_simps cfna_example_def cfb_example_def)
  have na: "forward_of ?fm ''1002'' ''no_answer'' = Some cfna_example"
    by (simp add: lookup_simps cfna_example_def cfb_example_def)
  have b: "forward_of ?fm ''1002'' ''busy'' = Some cfb_example"
    by (simp add: lookup_simps cfna_example_def cfb_example_def)
  have nf: "newline_free ''1002''"
    by simp
  have la: "list_all (\<lambda>f. newline_free (destination f)) [cfna_example, cfb_example]"
    by (simp add: cfna_example_def cfb_example_def)
  have fw: "\<forall>t f. forward_of ?fm ''1002'' t = Some f \<longrightarrow> newline_free (destination f)"
  proof (intro allI impI)
    fix t f assume "forward_of ?fm ''1002'' t = Some f"
    then have "f \<in> set [cfna_example, cfb_example]" by (rule forward_map_member)
    with la show "newline_free (destination f)" by (auto simp: list_all_iff)
  qed
  note t = dial_ring_time [OF h, of 20 True, unfolded na b]
  have 1: "filter (\<lambda>l. line_app l = Some ''Dial'') (dial_logic_lines ''1002'' ?fm 20 True) =
     ['' same => n,Dial(PJSIP/1002,15,tTr)'', '' same => n,Dial(PJSIP/0171@trunk,30,tT)'',
      '' same => n,Dial(PJSIP/0173@trunk,30,tT)'']"
    using t [THEN conjunct1] by (simp add: cfna_example_def cfb_example_def str_int_15)
  have 2: "filter (\<lambda>l. line_app l = Some ''Dial'')
       (text_lines (generate_dial_logic ''1002'' ?fm 20 True)) =
     ['' same => n,Dial(PJSIP/1002,15,tTr)'', '' same => n,Dial(PJSIP/0171@trunk,30,tT)'',
      '' same => n,Dial(PJSIP/0173@trunk,30,tT)'']"
    using t [THEN conjunct2, THEN mp, OF conjI [OF nf fw]]
    by (simp add: cfna_example_def cfb_example_def str_int_15)
  from h nf la 1 2 show ?thesis by (intro conjI)
qed

text \<open>
  Claim C9. The ring-timeout map keeps one row for each extension, the last
  one listed. Let \<open>mb\<close> be that row for an extension, with a ring timeout that
  is \<^verbatim>\<open>None\<close> or zero. Then \<^verbatim>\<open>mb.ring_timeout or 20\<close> is 20 and the map gives 20
  for the extension; the extension is in the override set exactly when it is a
  key of the forward map; and no mailbox list makes the map hold the value 0 or
  the compiler pass the ring time 0. In the text the compiler returns, for
  strings without line break and DIDs and extensions without comma: the
  override section has a header for the extension exactly when the extension
  has a forward; and the block of every inbound route to an extension without
  forward is the default block, whose \<^verbatim>\<open>Dial\<close> has the duration the map resolves,
  never \<^verbatim>\<open>0\<close>, and \<^verbatim>\<open>20\<close> for the extension of \<open>mb\<close>.

  It does not hold for every mailbox row: a row with ring timeout zero that is
  followed by a row of the same extension is replaced by it. For the rows
  \<^verbatim>\<open>(1001, 0)\<close> and \<^verbatim>\<open>(1001, 45)\<close> the map gives 45 for the extension and the
  override section has a block for it.
\<close>

theorem zero_ring_timeout_defaults:
  assumes "mailbox_of mailboxes ext = Some mb"
      and "ring_timeout mb = None \<or> ring_timeout mb = Some 0"
  shows \<open>resolved_timeout mb = 20 \<and>
         dict_get (build_ring_timeout_map mailboxes) ext = Some 20 \<and>
         (ext \<in> override_extensions fwd_map (build_ring_timeout_map mailboxes)
            \<longleftrightarrow> ext \<in> set (dict_keys fwd_map)) \<and>
         (\<forall>e. dict_get (build_ring_timeout_map mailboxes) e \<noteq> Some 0) \<and>
         (\<forall>e. dict_get_default (build_ring_timeout_map mailboxes) e 20 \<noteq> 0) \<and>
         (\<exists>text outbound_map.
            generate_extensions_config routes forwards (Some mailboxes) peers trunks = Inr text \<and>
            text =
              internal_context @
              override_section (build_forward_map (or_empty forwards))
                (build_ring_timeout_map mailboxes) @
              outbound_section outbound_map (build_trunk_map (or_empty trunks) []) @
              config_static @
              config_did_extract @
              inbound_section (build_forward_map (or_empty forwards))
                (build_ring_timeout_map mailboxes) routes @
              config_catch_all \<and>
            ((\<forall>r \<in> set routes. wf_route r) \<and>
             (\<forall>f \<in> set (or_empty forwards).
                pattern_safe (fwd_extension f) \<and> newline_free (destination f)) \<and>
             (\<forall>mb \<in> set mailboxes. pattern_safe (mb_extension mb)) \<longrightarrow>
               (ext \<in> set (header_patterns
                             (text_lines (override_section (build_forward_map (or_empty forwards))
                                            (build_ring_timeout_map mailboxes))))
                  \<longleftrightarrow> ext \<in> fwd_extension ` set (or_empty forwards)) \<and>
               (\<forall>route \<in> set routes.
                  destination_extension route \<notin> fwd_extension ` set (or_empty forwards) \<longrightarrow>
                    str_int (dict_get_default (build_ring_timeout_map mailboxes)
                               (destination_extension route) 20) \<noteq> ''0'' \<and>
                    (destination_extension route = ext \<longrightarrow>
                       str_int (dict_get_default (build_ring_timeout_map mailboxes)
                                  (destination_extension route) 20) = ''20'') \<and>
                    (\<exists>before after.
                       from_trunk_lines text =
                         before @
                         [[],
                          ''; '' @ (if truthy (description route) then or_empty (description route)
                                    else did route),
                          ''exten => '' @ did route @ '',1,NoOp(Inbound call to DID '' @
                             did route @ '')'',
                          '' same => n,Set(CALLERID(name)=${CALLERID(name)})'',
                          '' same => n,Answer()'',
                          '' same => n,Wait(0.5)'',
                          '' same => n,Set(DEVICE_STATE=${DEVICE_STATE(PJSIP/'' @
                             destination_extension route @ '')})'',
                          '' same => n,GotoIf($["${DEVICE_STATE}" = "UNAVAILABLE"]?unavail)'',
                          '' same => n,GotoIf($["${DEVICE_STATE}" = "INVALID"]?unavail)'',
                          '' same => n,Dial(PJSIP/'' @ destination_extension route @ '','' @
                             str_int (dict_get_default (build_ring_timeout_map mailboxes)
                                        (destination_extension route) 20) @ '',tTr)'',
                          '' same => n,GotoIf($["${DIALSTATUS}" = "BUSY"]?busy:unavail)'',
                          '' same => n(unavail),VoiceMail('' @ destination_extension route @
                             ''@default,u)'',
                          '' same => n,Hangup()'',
                          '' same => n(busy),VoiceMail('' @ destination_extension route @
                             ''@default,b)'',
                          '' same => n,Hangup()''] @
                         after))))\<close>
proof -
  let ?fm = "build_forward_map (or_empty forwards)"
  let ?rtm = "build_ring_timeout_map mailboxes"
  let ?wf = "(\<forall>r \<in> set routes. wf_route r) \<and>
             (\<forall>f \<in> set (or_empty forwards).
                pattern_safe (fwd_extension f) \<and> newline_free (destination f)) \<and>
             (\<forall>mb \<in> set mailboxes. pattern_safe (mb_extension mb))"
  from assms(2) have r: "resolved_timeout mb = 20"
    by (auto simp: resolved_timeout_def)
  have l: "dict_get ?rtm ext = Some 20"
    by (simp add: ring_timeout_map_lookup assms(1) r)
  then have d: "dict_get_default ?rtm ext 20 = 20"
    by (simp add: dict_get_def dict_get_default_def)
  then have o: "ext \<in> override_extensions fwd_map ?rtm \<longleftrightarrow> ext \<in> set (dict_keys fwd_map)"
    by (simp add: override_extensions_iff [OF ring_timeout_map_distinct])
  have z1: "\<forall>e. dict_get ?rtm e \<noteq> Some 0"
    by (simp add: ring_timeout_map_nonzero)
  have z2: "\<forall>e. dict_get_default ?rtm e 20 \<noteq> 0"
    by (simp add: ring_timeout_default_nonzero)
  from build_outbound_map_total [of routes peers] obtain om
    where om: "build_outbound_map routes peers = Inr om"
    by (elim exE conjE) (rule that)
  have oe: "or_empty (Some mailboxes) = mailboxes"
    by (simp add: or_empty_def)
  note cfg = generate_extensions_config_text [OF om, of forwards "Some mailboxes" trunks,
      unfolded oe]
  let ?text = "internal_context @ override_section ?fm ?rtm @
        outbound_section om (build_trunk_map (or_empty trunks) []) @
        config_static @ config_did_extract @ inbound_section ?fm ?rtm routes @ config_catch_all"
  have ft: "from_trunk_lines ?text =
             from_trunk_head_lines @
             (if routes \<noteq> [] then concat (map (inbound_block_lines ?fm ?rtm) routes)
              else no_routes_lines) @
             catch_all_lines @ [[]]" if wf: ?wf
  proof -
    from wf have rw: "\<forall>r \<in> set routes. wf_route r"
      and f: "\<forall>f \<in> set (or_empty forwards). newline_free (destination f)"
      by simp_all
    from from_trunk_lines_text [OF rw f, of "Some mailboxes" peers trunks, unfolded oe]
    obtain t where t: "generate_extensions_config routes forwards (Some mailboxes) peers trunks = Inr t"
      and lt: "from_trunk_lines t =
             from_trunk_head_lines @
             (if routes \<noteq> [] then concat (map (inbound_block_lines ?fm ?rtm) routes)
              else no_routes_lines) @
             catch_all_lines @ [[]]"
      by (elim exE conjE) (rule that, assumption, assumption)
    from t cfg have "t = ?text" by simp
    with lt show ?thesis by simp
  qed
  have a: "ext \<in> set (header_patterns (text_lines (override_section ?fm ?rtm)))
             \<longleftrightarrow> ext \<in> fwd_extension ` set (or_empty forwards)" if wf: ?wf
  proof -
    from wf have f: "\<forall>f \<in> set (or_empty forwards).
        pattern_safe (fwd_extension f) \<and> newline_free (destination f)"
      and m: "\<forall>mb \<in> set mailboxes. pattern_safe (mb_extension mb)"
      by simp_all
    show ?thesis
      unfolding override_header_iff [OF f m] using d by simp
  qed
  have b: \<open>\<forall>route \<in> set routes.
      destination_extension route \<notin> fwd_extension ` set (or_empty forwards) \<longrightarrow>
        str_int (dict_get_default ?rtm (destination_extension route) 20) \<noteq> ''0'' \<and>
        (destination_extension route = ext \<longrightarrow>
           str_int (dict_get_default ?rtm (destination_extension route) 20) = ''20'') \<and>
        (\<exists>before after.
           from_trunk_lines ?text =
             before @
             [[],
              ''; '' @ (if truthy (description route) then or_empty (description route)
                        else did route),
              ''exten => '' @ did route @ '',1,NoOp(Inbound call to DID '' @ did route @ '')'',
              '' same => n,Set(CALLERID(name)=${CALLERID(name)})'',
              '' same => n,Answer()'',
              '' same => n,Wait(0.5)'',
              '' same => n,Set(DEVICE_STATE=${DEVICE_STATE(PJSIP/'' @
                 destination_extension route @ '')})'',
              '' same => n,GotoIf($["${DEVICE_STATE}" = "UNAVAILABLE"]?unavail)'',
              '' same => n,GotoIf($["${DEVICE_STATE}" = "INVALID"]?unavail)'',
              '' same => n,Dial(PJSIP/'' @ destination_extension route @ '','' @
                 str_int (dict_get_default ?rtm (destination_extension route) 20) @ '',tTr)'',
              '' same => n,GotoIf($["${DIALSTATUS}" = "BUSY"]?busy:unavail)'',
              '' same => n(unavail),VoiceMail('' @ destination_extension route @ ''@default,u)'',
              '' same => n,Hangup()'',
              '' same => n(busy),VoiceMail('' @ destination_extension route @ ''@default,b)'',
              '' same => n,Hangup()''] @
             after)\<close> if wf: ?wf
  proof (intro ballI impI conjI)
    fix route
    assume rt: "route \<in> set routes"
      and nf: "destination_extension route \<notin> fwd_extension ` set (or_empty forwards)"
    show "str_int (dict_get_default ?rtm (destination_extension route) 20) \<noteq> ''0''"
      by (simp add: str_int_zero ring_timeout_default_nonzero)
    show "str_int (dict_get_default ?rtm (destination_extension route) 20) = ''20''"
      if "destination_extension route = ext"
      using that d by (simp add: str_int_20)
    show \<open>\<exists>before after.
           from_trunk_lines ?text =
             before @
             [[],
              ''; '' @ (if truthy (description route) then or_empty (description route)
                        else did route),
              ''exten => '' @ did route @ '',1,NoOp(Inbound call to DID '' @ did route @ '')'',
              '' same => n,Set(CALLERID(name)=${CALLERID(name)})'',
              '' same => n,Answer()'',
              '' same => n,Wait(0.5)'',
              '' same => n,Set(DEVICE_STATE=${DEVICE_STATE(PJSIP/'' @
                 destination_extension route @ '')})'',
              '' same => n,GotoIf($["${DEVICE_STATE}" = "UNAVAILABLE"]?unavail)'',
              '' same => n,GotoIf($["${DEVICE_STATE}" = "INVALID"]?unavail)'',
              '' same => n,Dial(PJSIP/'' @ destination_extension route @ '','' @
                 str_int (dict_get_default ?rtm (destination_extension route) 20) @ '',tTr)'',
              '' same => n,GotoIf($["${DIALSTATUS}" = "BUSY"]?busy:unavail)'',
              '' same => n(unavail),VoiceMail('' @ destination_extension route @ ''@default,u)'',
              '' same => n,Hangup()'',
              '' same => n(busy),VoiceMail('' @ destination_extension route @ ''@default,b)'',
              '' same => n,Hangup()''] @
             after\<close>
      using ft [OF wf] rt nf by (rule from_trunk_default_block)
  qed
  have c: \<open>\<exists>text outbound_map.
            generate_extensions_config routes forwards (Some mailboxes) peers trunks = Inr text \<and>
            text =
              internal_context @ override_section ?fm ?rtm @
              outbound_section outbound_map (build_trunk_map (or_empty trunks) []) @
              config_static @ config_did_extract @ inbound_section ?fm ?rtm routes @
              config_catch_all \<and>
            (?wf \<longrightarrow>
               (ext \<in> set (header_patterns (text_lines (override_section ?fm ?rtm)))
                  \<longleftrightarrow> ext \<in> fwd_extension ` set (or_empty forwards)) \<and>
               (\<forall>route \<in> set routes.
                  destination_extension route \<notin> fwd_extension ` set (or_empty forwards) \<longrightarrow>
                    str_int (dict_get_default ?rtm (destination_extension route) 20) \<noteq> ''0'' \<and>
                    (destination_extension route = ext \<longrightarrow>
                       str_int (dict_get_default ?rtm (destination_extension route) 20) = ''20'') \<and>
                    (\<exists>before after.
                       from_trunk_lines text =
                         before @
                         [[],
                          ''; '' @ (if truthy (description route) then or_empty (description route)
                                    else did route),
                          ''exten => '' @ did route @ '',1,NoOp(Inbound call to DID '' @
                             did route @ '')'',
                          '' same => n,Set(CALLERID(name)=${CALLERID(name)})'',
                          '' same => n,Answer()'',
                          '' same => n,Wait(0.5)'',
                          '' same => n,Set(DEVICE_STATE=${DEVICE_STATE(PJSIP/'' @
                             destination_extension route @ '')})'',
                          '' same => n,GotoIf($["${DEVICE_STATE}" = "UNAVAILABLE"]?unavail)'',
                          '' same => n,GotoIf($["${DEVICE_STATE}" = "INVALID"]?unavail)'',
                          '' same => n,Dial(PJSIP/'' @ destination_extension route @ '','' @
                             str_int (dict_get_default ?rtm (destination_extension route) 20) @
                             '',tTr)'',
                          '' same => n,GotoIf($["${DIALSTATUS}" = "BUSY"]?busy:unavail)'',
                          '' same => n(unavail),VoiceMail('' @ destination_extension route @
                             ''@default,u)'',
                          '' same => n,Hangup()'',
                          '' same => n(busy),VoiceMail('' @ destination_extension route @
                             ''@default,b)'',
                          '' same => n,Hangup()''] @
                         after)))\<close>
  proof (intro exI [of _ ?text] exI [of _ om] conjI impI)
    show "generate_extensions_config routes forwards (Some mailboxes) peers trunks = Inr ?text"
      by (rule cfg)
  qed (rule refl, erule a, erule b)
  from r l o z1 z2 c show ?thesis by (intro conjI)
qed

theorem zero_ring_timeout_defaults_witness:
  \<open>mailbox_of [mailbox_zero, mailbox_long] ''1001'' = Some mailbox_zero \<and>
   ring_timeout mailbox_zero = Some 0 \<and>
   list_all wf_route [route_a] \<and>
   list_all (\<lambda>f. pattern_safe (fwd_extension f) \<and> newline_free (destination f)) [cfu_example] \<and>
   list_all (\<lambda>mb. pattern_safe (mb_extension mb)) [mailbox_zero, mailbox_long] \<and>
   dict_get (build_ring_timeout_map [mailbox_zero, mailbox_long]) ''1001'' = Some 20 \<and>
   ''1001'' \<notin> set (header_patterns
                    (text_lines (override_section (build_forward_map [cfu_example])
                                   (build_ring_timeout_map [mailbox_zero, mailbox_long])))) \<and>
   (\<exists>text. generate_extensions_config [route_a] (Some [cfu_example])
              (Some [mailbox_zero, mailbox_long]) None None = Inr text \<and>
      '' same => n,Dial(PJSIP/1001,20,tTr)'' \<in> set (from_trunk_lines text))\<close>
proof -
  have h: "mailbox_of [mailbox_zero, mailbox_long] ''1001'' = Some mailbox_zero"
    by (simp add: mailbox_of_def mailbox_zero_def mailbox_long_def)
  have z: "ring_timeout mailbox_zero = Some 0"
    by (simp add: mailbox_zero_def)
  then have z': "ring_timeout mailbox_zero = None \<or> ring_timeout mailbox_zero = Some 0" ..
  have oe: "or_empty (Some [cfu_example]) = [cfu_example]"
    by (simp add: or_empty_def)
  have r: "\<forall>r \<in> set [route_a]. wf_route r"
    by (simp add: wf_route_def route_a_def or_empty_def)
  have f: "\<forall>f \<in> set [cfu_example]. pattern_safe (fwd_extension f) \<and> newline_free (destination f)"
    by (simp add: pattern_safe_def cfu_example_def)
  have m: "\<forall>mb \<in> set [mailbox_zero, mailbox_long]. pattern_safe (mb_extension mb)"
    by (simp add: pattern_safe_def mailbox_zero_def mailbox_long_def)
  from r f m have hyp: "(\<forall>r \<in> set [route_a]. wf_route r) \<and>
      (\<forall>f \<in> set [cfu_example]. pattern_safe (fwd_extension f) \<and> newline_free (destination f)) \<and>
      (\<forall>mb \<in> set [mailbox_zero, mailbox_long]. pattern_safe (mb_extension mb))"
    by (intro conjI)
  have nf: "''1001'' \<notin> fwd_extension ` set [cfu_example]"
    by (simp add: cfu_example_def)
  have da: "destination_extension route_a = ''1001''"
    by (simp add: route_a_def)
  note t = zero_ring_timeout_defaults [OF h z', of "[]" "[route_a]" "Some [cfu_example]" None None,
      unfolded oe]
  note l = t [THEN conjunct2, THEN conjunct1]
  from t [THEN conjunct2, THEN conjunct2, THEN conjunct2, THEN conjunct2, THEN conjunct2]
  obtain cfg om where
    c: "generate_extensions_config [route_a] (Some [cfu_example])
          (Some [mailbox_zero, mailbox_long]) None None = Inr cfg"
    and imp: \<open>(\<forall>r \<in> set [route_a]. wf_route r) \<and>
      (\<forall>f \<in> set [cfu_example]. pattern_safe (fwd_extension f) \<and> newline_free (destination f)) \<and>
      (\<forall>mb \<in> set [mailbox_zero, mailbox_long]. pattern_safe (mb_extension mb)) \<longrightarrow>
        (''1001'' \<in> set (header_patterns
                          (text_lines (override_section (build_forward_map [cfu_example])
                                         (build_ring_timeout_map [mailbox_zero, mailbox_long]))))
           \<longleftrightarrow> ''1001'' \<in> fwd_extension ` set [cfu_example]) \<and>
        (\<forall>route \<in> set [route_a].
           destination_extension route \<notin> fwd_extension ` set [cfu_example] \<longrightarrow>
             str_int (dict_get_default (build_ring_timeout_map [mailbox_zero, mailbox_long])
                        (destination_extension route) 20) \<noteq> ''0'' \<and>
             (destination_extension route = ''1001'' \<longrightarrow>
                str_int (dict_get_default (build_ring_timeout_map [mailbox_zero, mailbox_long])
                           (destination_extension route) 20) = ''20'') \<and>
             (\<exists>before after.
                from_trunk_lines cfg =
                  before @
                  [[],
                   ''; '' @ (if truthy (description route) then or_empty (description route)
                             else did route),
                   ''exten => '' @ did route @ '',1,NoOp(Inbound call to DID '' @
                      did route @ '')'',
                   '' same => n,Set(CALLERID(name)=${CALLERID(name)})'',
                   '' same => n,Answer()'',
                   '' same => n,Wait(0.5)'',
                   '' same => n,Set(DEVICE_STATE=${DEVICE_STATE(PJSIP/'' @
                      destination_extension route @ '')})'',
                   '' same => n,GotoIf($["${DEVICE_STATE}" = "UNAVAILABLE"]?unavail)'',
                   '' same => n,GotoIf($["${DEVICE_STATE}" = "INVALID"]?unavail)'',
                   '' same => n,Dial(PJSIP/'' @ destination_extension route @ '','' @
                      str_int (dict_get_default (build_ring_timeout_map [mailbox_zero, mailbox_long])
                                 (destination_extension route) 20) @ '',tTr)'',
                   '' same => n,GotoIf($["${DIALSTATUS}" = "BUSY"]?busy:unavail)'',
                   '' same => n(unavail),VoiceMail('' @ destination_extension route @
                      ''@default,u)'',
                   '' same => n,Hangup()'',
                   '' same => n(busy),VoiceMail('' @ destination_extension route @
                      ''@default,b)'',
                   '' same => n,Hangup()''] @
                  after))\<close>
    by (elim exE conjE) (rule that, assumption, assumption)
  note w = imp [THEN mp, OF hyp]
  from w [THEN conjunct1] nf
  have 1: "''1001'' \<notin> set (header_patterns
                    (text_lines (override_section (build_forward_map [cfu_example])
                                   (build_ring_timeout_map [mailbox_zero, mailbox_long]))))"
    by simp
  have ra: "route_a \<in> set [route_a]" by simp
  from nf have nf': "destination_extension route_a \<notin> fwd_extension ` set [cfu_example]"
    unfolding da .
  note blk = w [THEN conjunct2, THEN bspec, OF ra, THEN mp, OF nf']
  note s20 = blk [THEN conjunct2, THEN conjunct1, THEN mp, OF da]
  from blk [THEN conjunct2, THEN conjunct2]
  have 2: "'' same => n,Dial(PJSIP/1001,20,tTr)'' \<in> set (from_trunk_lines cfg)"
    by (elim exE) (simp add: s20 [unfolded da] da)
  from c 2 have e: "\<exists>text. generate_extensions_config [route_a] (Some [cfu_example])
              (Some [mailbox_zero, mailbox_long]) None None = Inr text \<and>
      '' same => n,Dial(PJSIP/1001,20,tTr)'' \<in> set (from_trunk_lines text)"
    by (intro exI conjI)
  have r': "list_all wf_route [route_a]"
    using r unfolding list_all_iff .
  have f': "list_all (\<lambda>f. pattern_safe (fwd_extension f) \<and> newline_free (destination f)) [cfu_example]"
    using f unfolding list_all_iff .
  have m': "list_all (\<lambda>mb. pattern_safe (mb_extension mb)) [mailbox_zero, mailbox_long]"
    using m unfolding list_all_iff .
  from h z r' f' m' l 1 e show ?thesis by (intro conjI)
qed

theorem duplicate_mailbox_counterexample:
  "ring_timeout mailbox_zero = Some 0 \<and>
   mb_extension mailbox_zero = ''1001'' \<and>
   mailbox_zero \<in> set [mailbox_zero, mailbox_dup] \<and>
   dict_get (build_ring_timeout_map [mailbox_zero, mailbox_dup]) ''1001'' = Some 45 \<and>
   ''1001'' \<in> override_extensions (build_forward_map []) (build_ring_timeout_map [mailbox_zero, mailbox_dup]) \<and>
   header_patterns (text_lines (override_section (build_forward_map [])
                                  (build_ring_timeout_map [mailbox_zero, mailbox_dup]))) = [''1001'']"
proof -
  have m: "build_ring_timeout_map [mailbox_zero, mailbox_dup] = [(''1001'', 45)]"
    by (simp add: build_ring_timeout_map_def resolved_timeout_def
          mailbox_zero_def mailbox_dup_def)
  have o: "override_extensions (build_forward_map []) [(''1001'', 45)] = {''1001''}"
    by (simp add: override_extensions_def build_forward_map_def dict_keys_def)
  have f: "\<forall>f \<in> set ([] :: call_forward list).
      pattern_safe (fwd_extension f) \<and> newline_free (destination f)"
    by simp
  have s: "\<forall>mb \<in> set [mailbox_zero, mailbox_dup]. pattern_safe (mb_extension mb)"
    by (simp add: pattern_safe_def mailbox_zero_def mailbox_dup_def)
  have p: "header_patterns (text_lines (override_section (build_forward_map [])
             (build_ring_timeout_map [mailbox_zero, mailbox_dup]))) = [''1001'']"
    unfolding override_section_patterns [OF f s] unfolding m o by simp
  have l: "dict_get (build_ring_timeout_map [mailbox_zero, mailbox_dup]) ''1001'' = Some 45"
    unfolding m by (simp add: dict_get_def)
  have e: "''1001'' \<in> override_extensions (build_forward_map [])
      (build_ring_timeout_map [mailbox_zero, mailbox_dup])"
    unfolding m o by simp
  have z: "ring_timeout mailbox_zero = Some 0" "mb_extension mailbox_zero = ''1001''"
    by (simp_all add: mailbox_zero_def)
  have i: "mailbox_zero \<in> set [mailbox_zero, mailbox_dup]"
    by simp
  from z i l e p show ?thesis by (intro conjI)
qed

text \<open>
  Claim C10. The outbound map is built without error; it is non-empty exactly
  when there is an inbound route; its keys are the destination extensions of
  the routes, so a peer whose extension owns no route has no entry; and with
  no inbound route the text has no outbound part at all: the override blocks
  are followed at once by the static extensions.
\<close>

theorem outbound_map_nonempty_iff:
  "\<exists>outbound_map.
     build_outbound_map routes peers = Inr outbound_map \<and>
     (outbound_map \<noteq> [] \<longleftrightarrow> routes \<noteq> []) \<and>
     set (dict_keys outbound_map) = destination_extension ` set routes \<and>
     (\<forall>p \<in> set (or_empty peers).
        peer_extension p \<notin> destination_extension ` set routes \<longrightarrow>
        dict_get outbound_map (peer_extension p) = None) \<and>
     outbound_section [] (build_trunk_map (or_empty trunks) []) = [] \<and>
     generate_extensions_config [] forwards mailboxes peers trunks =
       Inr (internal_context @
            override_section (build_forward_map (or_empty forwards))
              (build_ring_timeout_map (or_empty mailboxes)) @
            config_static @
            config_did_extract @
            config_no_routes @
            config_catch_all)"
proof -
  obtain om where om: "build_outbound_map routes peers = Inr om"
    and keys: "fst ` set om = destination_extension ` set routes"
    using build_outbound_map_total [of routes peers] by (elim exE conjE)
  from keys have ne: "om \<noteq> [] \<longleftrightarrow> routes \<noteq> []"
    by (metis empty_set image_is_empty set_empty2)
  from keys have k: "set (dict_keys om) = destination_extension ` set routes"
    by (simp add: dict_keys_def)
  have none: "\<forall>p \<in> set (or_empty peers).
        peer_extension p \<notin> destination_extension ` set routes \<longrightarrow>
        dict_get om (peer_extension p) = None"
    using keys by (simp add: dict_get_def map_of_eq_None_iff)
  have e: "build_outbound_map [] peers = Inr []"
    by (simp add: build_outbound_map_def)
  have sec: "outbound_section [] (build_trunk_map (or_empty trunks) []) = []"
    by (simp add: outbound_section_def)
  have cfg: "generate_extensions_config [] forwards mailboxes peers trunks =
       Inr (internal_context @
            override_section (build_forward_map (or_empty forwards))
              (build_ring_timeout_map (or_empty mailboxes)) @
            config_static @
            config_did_extract @
            config_no_routes @
            config_catch_all)"
    using generate_extensions_config_text [OF e, of forwards mailboxes trunks]
    by (simp add: sec inbound_section_def)
  from om ne k none sec cfg show ?thesis
    by (intro exI [of _ om] conjI)
qed

theorem outbound_map_nonempty_iff_witness:
  "build_outbound_map [] (Some [peer_example]) = Inr [] \<and>
   (\<exists>outbound_map. build_outbound_map [route_a] (Some [peer_example]) = Inr outbound_map \<and>
      outbound_map \<noteq> [])"
proof -
  from outbound_map_nonempty_iff [of "[]" "Some [peer_example]" None None None]
  obtain om where "build_outbound_map [] (Some [peer_example]) = Inr om" and "(om \<noteq> []) = (([] :: inbound_route list) \<noteq> [])"
    by (elim exE conjE)
  then have 1: "build_outbound_map [] (Some [peer_example]) = Inr []" by simp
  from outbound_map_nonempty_iff [of "[route_a]" "Some [peer_example]" None None None]
  obtain om' where "build_outbound_map [route_a] (Some [peer_example]) = Inr om'" and "(om' \<noteq> []) = ([route_a] \<noteq> [])"
    by (elim exE conjE)
  then have 2: "\<exists>outbound_map. build_outbound_map [route_a] (Some [peer_example]) = Inr outbound_map \<and>
      outbound_map \<noteq> []" by simp
  from 1 2 show ?thesis ..
qed

end
